theory Spec2Isabelle
  imports Complex_Main "HOL-Library.Sublist"
begin

section \<open>Strings and the download pattern\<close>

text \<open>
  JavaScript strings are modelled as \<open>string\<close>: lists of 8-bit characters. Of the
  characters that the regular-expression dot refuses (the line terminators), LF and CR
  are in that range.
\<close>

definition is_line_terminator :: "char \<Rightarrow> bool" where
  "is_line_terminator c \<longleftrightarrow> c = CHR 0x0A \<or> c = CHR 0x0D"

text \<open>\<open>.+$\<close> at a given position: what is left of the input, all of it, at least one
  character and no line terminator (no \<open>m\<close> flag: \<open>$\<close> is the end of the input).\<close>

definition dot_plus_to_end :: "string \<Rightarrow> bool" where
  "dot_plus_to_end r \<longleftrightarrow> r \<noteq> [] \<and> list_all (\<lambda>c. \<not> is_line_terminator c) r"

text \<open>
  \<open>s.match(/\/download\/(.+)$/)\<close>: the positions of \<open>s\<close> are tried from the left;
  at each one the literal \<open>/download/\<close> must come next and the group \<open>(.+)\<close> must
  reach the end of the input. The result is group 1 of the leftmost position that
  succeeds, \<open>None\<close> for JavaScript's \<open>null\<close>.
\<close>

fun match_download :: "string \<Rightarrow> string option" where
  "match_download [] = None"
| "match_download (c # cs) =
     (if prefix ''/download/'' (c # cs) \<and> dot_plus_to_end (drop 10 (c # cs))
      then Some (drop 10 (c # cs))
      else match_download cs)"

text \<open>\<open>getFileIdFromPath\<close> of the download page, with \<open>window.location.pathname\<close>
  as an explicit argument: \<open>match ? match[1] : null\<close>.\<close>

definition getFileIdFromPath :: "string \<Rightarrow> string option" where
  "getFileIdFromPath path = (case match_download path of Some fileId \<Rightarrow> Some fileId | None \<Rightarrow> None)"

text \<open>
  The conversion of the backend link to the frontend URL inside \<open>uploadFiles\<close>
  (the branch under \<open>if (backendDownloadLink)\<close>, for a link that is a string), with
  \<open>window.location.origin\<close> as an explicit argument.
\<close>

definition backend_base :: string where
  "backend_base = ''https://upload-qodp.onrender.com''"

definition frontendDownloadUrl :: "string \<Rightarrow> string \<Rightarrow> string" where
  "frontendDownloadUrl origin backendDownloadLink =
     (case match_download backendDownloadLink of
        Some fileId \<Rightarrow> origin @ ''/download/'' @ fileId
      | None \<Rightarrow>
          if prefix ''http'' backendDownloadLink then backendDownloadLink
          else backend_base @ backendDownloadLink)"

section \<open>The path name of a URL\<close>

text \<open>
  The download page reads \<open>window.location.pathname\<close>, which the browser computes
  from the URL of the page. What follows is the URL Standard's parser for an http or
  https URL, from the end of the origin on: \<open>url_pathname rest\<close> is the path name of
  the URL whose string is an origin followed by \<open>rest\<close>.
\<close>

definition c0_control_or_space :: "char \<Rightarrow> bool" where
  "c0_control_or_space c \<longleftrightarrow> (of_char c :: nat) \<le> 32"

text \<open>Before parsing, trailing C0 controls and spaces are removed from the URL string,
  and then every tab and newline in it.\<close>

definition strip_trailing :: "string \<Rightarrow> string" where
  "strip_trailing s = rev (dropWhile c0_control_or_space (rev s))"

definition tab_or_newline :: "char \<Rightarrow> bool" where
  "tab_or_newline c \<longleftrightarrow> c = CHR 0x09 \<or> c = CHR 0x0A \<or> c = CHR 0x0D"

text \<open>In the path of an http(s) URL the backslash separates segments as the slash
  does.\<close>

definition is_separator :: "char \<Rightarrow> bool" where
  "is_separator c \<longleftrightarrow> c = CHR ''/'' \<or> c = CHR 0x5C"

text \<open>The path percent-encode set: the C0 controls, everything from DEL on, the space
  and \<open>" # < > ? ^ ` { }\<close>. A character of the set is written as the bytes of its UTF-8
  encoding, each as \<open>%\<close> and two hexadecimal digits; a character from \<open>0x80\<close> to
  \<open>0xFF\<close> has two bytes. (The caret is a late addition to the set, and browsers have
  differed on it; no result below depends on an identifier with a caret.)\<close>

definition in_path_percent_encode_set :: "char \<Rightarrow> bool" where
  "in_path_percent_encode_set c \<longleftrightarrow>
     (of_char c :: nat) \<le> 31 \<or> 127 \<le> (of_char c :: nat) \<or>
     c \<in> set [CHR 0x20, CHR 0x22, CHR ''#'', CHR ''<'', CHR ''>'', CHR ''?'', CHR ''^'', CHR 0x60,
              CHR ''{'', CHR ''}'']"

definition hex_digit :: "nat \<Rightarrow> char" where
  "hex_digit n = ''0123456789ABCDEF'' ! n"

definition percent_byte :: "nat \<Rightarrow> string" where
  "percent_byte n = [CHR ''%'', hex_digit (n div 16), hex_digit (n mod 16)]"

definition percent_encode_char :: "char \<Rightarrow> string" where
  "percent_encode_char c =
     (let n = (of_char c :: nat)
      in if \<not> in_path_percent_encode_set c then [c]
         else if n < 128 then percent_byte n
         else percent_byte (192 + n div 64) @ percent_byte (128 + n mod 64))"

definition percent_encode :: "string \<Rightarrow> string" where
  "percent_encode s = concat (map percent_encode_char s)"

text \<open>The dot segments, with \<open>%2e\<close> for a dot in either case of the \<open>e\<close>.\<close>

definition single_dot_segment :: "string \<Rightarrow> bool" where
  "single_dot_segment b \<longleftrightarrow> b \<in> set [''.'', ''%2e'', ''%2E'']"

definition double_dot_segment :: "string \<Rightarrow> bool" where
  "double_dot_segment b \<longleftrightarrow>
     b \<in> set [''..'', ''.%2e'', ''.%2E'', ''%2e.'', ''%2E.'', ''%2e%2e'', ''%2e%2E'', ''%2E%2e'', ''%2E%2E'']"

text \<open>The path cut at its separators: each piece with \<open>True\<close> when a separator ends it,
  \<open>False\<close> for the last piece, which the end of the path ends.\<close>

fun segments :: "string \<Rightarrow> string \<Rightarrow> (string \<times> bool) list" where
  "segments buf [] = [(buf, False)]"
| "segments buf (c # cs) =
     (if is_separator c then (buf, True) # segments [] cs else segments (buf @ [c]) cs)"

text \<open>The path state of the parser, piece by piece: a double-dot segment removes the
  last segment of the path, if there is one; a dot segment that the end of the path ends
  leaves an empty segment; any other piece is a segment, percent-encoded.\<close>

fun path_state :: "string list \<Rightarrow> (string \<times> bool) list \<Rightarrow> string list" where
  "path_state path [] = path"
| "path_state path ((buf, sep) # rest) =
     (if double_dot_segment (percent_encode buf)
      then path_state (butlast path @ (if sep then [] else [[]])) rest
      else if single_dot_segment (percent_encode buf)
      then path_state (path @ (if sep then [] else [[]])) rest
      else path_state (path @ [percent_encode buf]) rest)"

text \<open>The path ends at the first \<open>?\<close> or \<open>#\<close>; its first separator opens the first
  segment; the path name is every segment after a slash.\<close>

definition url_pathname :: "string \<Rightarrow> string" where
  "url_pathname rest =
     (let s = filter (\<lambda>c. \<not> tab_or_newline c) (strip_trailing rest);
          p = takeWhile (\<lambda>c. c \<noteq> CHR ''?'' \<and> c \<noteq> CHR ''#'') s
      in concat (map (\<lambda>seg. CHR ''/'' # seg)
           (path_state []
              (segments [] (case p of [] \<Rightarrow> [] | c # cs \<Rightarrow> if is_separator c then cs else c # cs)))))"

text \<open>The shape of \<open>window.location.origin\<close> on an http or https page: the scheme,
  \<open>://\<close>, and a host with or without a port, in printable ASCII characters none of
  which ends a host.\<close>

definition http_origin :: "string \<Rightarrow> bool" where
  "http_origin org \<longleftrightarrow>
     (let hostport = (if prefix ''https://'' org then drop 8 org
                      else if prefix ''http://'' org then drop 7 org else [])
      in hostport \<noteq> [] \<and>
         list_all (\<lambda>c. 32 < (of_char c :: nat) \<and> (of_char c :: nat) < 127 \<and> \<not> is_separator c \<and>
                         c \<noteq> CHR ''?'' \<and> c \<noteq> CHR ''#'' \<and> c \<noteq> CHR ''@'') hostport)"

text \<open>The path name of \<open>url\<close>, a URL of the site whose origin is \<open>org\<close>: the origin
  must be followed by nothing, or by a character that ends the host. \<open>None\<close> for any
  other pair of strings.\<close>

definition pathname_at :: "string \<Rightarrow> string \<Rightarrow> string option" where
  "pathname_at org url =
     (if http_origin org \<and> prefix org url
      then (case drop (length org) url of
              [] \<Rightarrow> Some (url_pathname [])
            | c # cs \<Rightarrow>
                if is_separator c \<or> c = CHR ''?'' \<or> c = CHR ''#'' then Some (url_pathname (c # cs))
                else None)
      else None)"

text \<open>The identifier that the download page finds when the browser is at \<open>url\<close>.\<close>

definition download_page_id :: "string \<Rightarrow> string \<Rightarrow> string option" where
  "download_page_id org url =
     (case pathname_at org url of
        None \<Rightarrow> None
      | Some path \<Rightarrow> getFileIdFromPath path)"

text \<open>A character that the parser passes through as it is, inside a segment.\<close>

definition url_path_char :: "char \<Rightarrow> bool" where
  "url_path_char c \<longleftrightarrow> \<not> in_path_percent_encode_set c \<and> \<not> is_separator c"

section \<open>Numbers as text\<close>

definition digit_char :: "nat \<Rightarrow> char" where
  "digit_char d = ''0123456789'' ! d"

text \<open>The decimal text of a non-negative integer, as a template literal prints it.\<close>

fun show_nat :: "nat \<Rightarrow> string" where
  "show_nat n = (if n < 10 then [digit_char n] else show_nat (n div 10) @ [digit_char (n mod 10)])"

declare show_nat.simps [simp del]

section \<open>JavaScript values\<close>

text \<open>
  The values that \<open>JSON.parse\<close> returns, together with \<open>undefined\<close> and the built-in
  functions that a property read can return. An object is the association list of its
  own properties.
\<close>

datatype jsval =
    JUndefined
  | JNull
  | JBool bool
  | JNum real
  | JStr string
  | JArr "jsval list"
  | JObj "(string \<times> jsval) list"
  | JBuiltin string

fun truthy :: "jsval \<Rightarrow> bool" where
  "truthy JUndefined = False"
| "truthy JNull = False"
| "truthy (JBool b) = b"
| "truthy (JNum x) = (x \<noteq> 0)"
| "truthy (JStr s) = (s \<noteq> [])"
| "truthy (JArr vs) = True"
| "truthy (JObj kvs) = True"
| "truthy (JBuiltin f) = True"

text \<open>The two ways in which the upload handler can raise a \<open>TypeError\<close>: reading a
  property of \<open>null\<close> or \<open>undefined\<close>, and calling something that is not a function.\<close>

datatype type_error = ReadOfNullish | NotAFunction

text \<open>The members of \<open>String.prototype\<close> among the property names that the program
  reads (\<open>downloadLink\<close>, \<open>url\<close>, \<open>link\<close>, \<open>files\<close>, \<open>match\<close>, \<open>startsWith\<close>):
  \<open>String.prototype.link\<close> is the legacy HTML method.\<close>

definition string_prototype :: "string list" where
  "string_prototype = [''link'', ''match'', ''startsWith'']"

text \<open>
  \<open>v.p\<close> for the property names that the program reads. None of them is a member of
  \<open>Object.prototype\<close>, \<open>Array.prototype\<close>, \<open>Number.prototype\<close>,
  \<open>Boolean.prototype\<close> or \<open>Function.prototype\<close>.
\<close>

fun getProp :: "jsval \<Rightarrow> string \<Rightarrow> type_error + jsval" where
  "getProp JUndefined p = Inl ReadOfNullish"
| "getProp JNull p = Inl ReadOfNullish"
| "getProp (JObj kvs) p = Inr (case map_of kvs p of Some v \<Rightarrow> v | None \<Rightarrow> JUndefined)"
| "getProp (JStr s) p = Inr (if p \<in> set string_prototype then JBuiltin p else JUndefined)"
| "getProp (JBool b) p = Inr JUndefined"
| "getProp (JNum x) p = Inr JUndefined"
| "getProp (JArr vs) p = Inr JUndefined"
| "getProp (JBuiltin f) p = Inr JUndefined"

text \<open>
  What the program takes from the browser: \<open>JSON.parse\<close> (\<open>None\<close> when it throws),
  \<open>window.location.origin\<close>, the rounding of a real number to a double, and the
  message that the engine gives a \<open>TypeError\<close>.
\<close>

record browser =
  parseJSON :: "string \<Rightarrow> jsval option"
  origin :: string
  fl :: "real \<Rightarrow> real"
  typeErrorMessage :: "type_error \<Rightarrow> string"

section \<open>The upload component\<close>

record js_file =
  file_name :: string
  file_size :: nat

datatype upload_result =
    ResultSuccess (downloadUrl: string) (backendUrl: jsval) (files: jsval) (response: jsval)
  | ResultError (message: string)

record upload_state =
  selectedFiles :: "js_file list"
  isUploading :: bool
  uploadProgress :: real
  result :: "upload_result option"
  showQR :: bool
  qrLoading :: bool
  copySuccess :: bool

datatype request = XhrPost string "js_file list" | FetchGet string

text \<open>\<open>removeFile\<close>: \<open>selectedFiles.filter((_, i) => i !== index)\<close>.\<close>

definition removeFile :: "int \<Rightarrow> upload_state \<Rightarrow> upload_state" where
  "removeFile index st =
     st\<lparr>selectedFiles :=
          map snd (filter (\<lambda>(i, f). int i \<noteq> index) (enumerate 0 (selectedFiles st)))\<rparr>"

text \<open>What the transport reports: progress events, then \<open>onload\<close> with the status and
  the response text, or \<open>onerror\<close>.\<close>

record progress_event =
  lengthComputable :: bool
  loaded :: nat
  total :: nat

datatype xhr_completion = OnLoad nat string | OnError

text \<open>The progress listener. The browser sets \<open>lengthComputable\<close> exactly when
  \<open>total\<close> is not 0, so the quotient is never \<open>0/0\<close>.\<close>

definition on_progress :: "browser \<Rightarrow> progress_event \<Rightarrow> upload_state \<Rightarrow> upload_state" where
  "on_progress b e st =
     (if lengthComputable e
      then st\<lparr>uploadProgress := fl b (fl b (real (loaded e) / real (total e)) * 100)\<rparr>
      else st)"

text \<open>The states after each progress event, in order.\<close>

fun progress_states :: "browser \<Rightarrow> progress_event list \<Rightarrow> upload_state \<Rightarrow> upload_state list" where
  "progress_states b [] st = []"
| "progress_states b (e # es) st = on_progress b e st # progress_states b es (on_progress b e st)"

text \<open>The promise around the request: \<open>Inr\<close> the value it resolves with, \<open>Inl\<close> the
  message of the error it rejects with.\<close>

definition xhr_promise :: "browser \<Rightarrow> xhr_completion \<Rightarrow> string + jsval" where
  "xhr_promise b c =
     (case c of
        OnLoad status responseText \<Rightarrow>
          if status = 200
          then (case parseJSON b responseText of
                  Some v \<Rightarrow> Inr v
                | None \<Rightarrow> Inr (JStr responseText))
          else Inl (if responseText \<noteq> [] then responseText else ''HTTP '' @ show_nat status)
      | OnError \<Rightarrow> Inl ''Upload failed - Network error'')"

text \<open>\<open>response.downloadLink || response.url || response.link\<close>.\<close>

definition backendDownloadLink :: "jsval \<Rightarrow> type_error + jsval" where
  "backendDownloadLink resp =
     (case getProp resp ''downloadLink'' of
        Inl e \<Rightarrow> Inl e
      | Inr a \<Rightarrow>
          if truthy a then Inr a
          else (case getProp resp ''url'' of
                  Inl e \<Rightarrow> Inl e
                | Inr u \<Rightarrow> if truthy u then Inr u else getProp resp ''link''))"

text \<open>The frontend URL: empty for a link that is not truthy; a truthy link that is not
  a string has no \<open>match\<close> method, and the call raises.\<close>

definition convert_link :: "string \<Rightarrow> jsval \<Rightarrow> type_error + string" where
  "convert_link org link =
     (if truthy link
      then (case link of
              JStr s \<Rightarrow> Inr (frontendDownloadUrl org s)
            | _ \<Rightarrow> Inl NotAFunction)
      else Inr [])"

text \<open>\<open>response.files || selectedFiles.map(f => ({ name: f.name }))\<close>, for a response
  whose properties can be read.\<close>

definition result_files :: "jsval \<Rightarrow> js_file list \<Rightarrow> jsval" where
  "result_files resp fs =
     (case getProp resp ''files'' of
        Inr v \<Rightarrow> if truthy v then v else JArr (map (\<lambda>f. JObj [(''name'', JStr (file_name f))]) fs)
      | Inl e \<Rightarrow> JArr (map (\<lambda>f. JObj [(''name'', JStr (file_name f))]) fs))"

text \<open>The \<open>try\<close> block after the promise has resolved with \<open>resp\<close>.\<close>

definition on_resolved :: "browser \<Rightarrow> jsval \<Rightarrow> upload_state \<Rightarrow> type_error + upload_state" where
  "on_resolved b resp st =
     (case backendDownloadLink resp of
        Inl e \<Rightarrow> Inl e
      | Inr link \<Rightarrow>
          (case convert_link (origin b) link of
             Inl e \<Rightarrow> Inl e
           | Inr url \<Rightarrow>
               Inr (st\<lparr>result := Some (ResultSuccess url link (result_files resp (selectedFiles st)) resp),
                       selectedFiles := []\<rparr>)))"

text \<open>\<open>error.message || 'Upload failed'\<close>.\<close>

definition on_caught :: "string \<Rightarrow> upload_state \<Rightarrow> upload_state" where
  "on_caught msg st = st\<lparr>result := Some (ResultError (if msg \<noteq> [] then msg else ''Upload failed''))\<rparr>"

definition upload_begin :: "upload_state \<Rightarrow> upload_state" where
  "upload_begin st = st\<lparr>isUploading := True, uploadProgress := 0, result := None\<rparr>"

text \<open>Completion: \<open>try\<close>, \<open>catch\<close>, \<open>finally\<close>.\<close>

definition upload_complete :: "browser \<Rightarrow> xhr_completion \<Rightarrow> upload_state \<Rightarrow> upload_state" where
  "upload_complete b c st =
     (let st' = (case xhr_promise b c of
                   Inl msg \<Rightarrow> on_caught msg st
                 | Inr resp \<Rightarrow>
                     (case on_resolved b resp st of
                        Inl e \<Rightarrow> on_caught (typeErrorMessage b e) st
                      | Inr s \<Rightarrow> s))
      in st'\<lparr>isUploading := False, uploadProgress := 0\<rparr>)"

definition upload_url :: string where
  "upload_url = ''https://upload-qodp.onrender.com/upload''"

text \<open>\<open>uploadFiles\<close>: the final state and the requests sent. \<open>events\<close> and \<open>c\<close> are
  what the transport reports for the request, if one is sent.\<close>

definition uploadFiles ::
  "browser \<Rightarrow> progress_event list \<Rightarrow> xhr_completion \<Rightarrow> upload_state \<Rightarrow> upload_state \<times> request list" where
  "uploadFiles b events c st =
     (if length (selectedFiles st) = 0 then (st, [])
      else (upload_complete b c (fold (on_progress b) events (upload_begin st)),
            [XhrPost upload_url (selectedFiles st)]))"

text \<open>The status of the specification's upload session, read off the component state
  as the view reads it: the progress bar shows while \<open>isUploading\<close>, the result panel
  by \<open>result.type\<close>.\<close>

datatype session_status = Idle | Selected | Uploading | Succeeded | Failed

definition upload_status :: "upload_state \<Rightarrow> session_status" where
  "upload_status st =
     (if isUploading st then Uploading
      else (case result st of
              Some (ResultSuccess u l fs r) \<Rightarrow> Succeeded
            | Some (ResultError m) \<Rightarrow> Failed
            | None \<Rightarrow> if selectedFiles st = [] then Idle else Selected))"

section \<open>The download page\<close>

text \<open>A JavaScript number that is an integer, an infinity or \<open>NaN\<close>.\<close>

datatype js_number = NaN | Finite int | PlusInfinity | MinusInfinity

definition is_quote :: "char \<Rightarrow> bool" where
  "is_quote c \<longleftrightarrow> c = CHR 0x22 \<or> c = CHR 0x27"

text \<open>
  Group 1 of \<open>/filename[^;=\n]*=((['"]).*?\2|[^;\n]*)/\<close>, given the text after the
  \<open>=\<close>. First alternative: an opening quote, the shortest run of characters that are
  not line terminators, and the same quote again; the group keeps both quotes. Second
  alternative: the longest run without \<open>;\<close> and LF, possibly empty.
\<close>

definition filename_value :: "string \<Rightarrow> string" where
  "filename_value v =
     (let unquoted = takeWhile (\<lambda>c. c \<noteq> CHR '';'' \<and> c \<noteq> CHR 0x0A) v
      in case v of
           [] \<Rightarrow> unquoted
         | q # rest \<Rightarrow>
             if is_quote q
             then (let inner = takeWhile (\<lambda>c. c \<noteq> q) rest
                   in if length inner < length rest \<and> list_all (\<lambda>c. \<not> is_line_terminator c) inner
                      then q # inner @ [q]
                      else unquoted)
             else unquoted)"

text \<open>The pattern tried at the start of \<open>s\<close>: the literal \<open>filename\<close>, the longest run
  without \<open>;\<close>, \<open>=\<close> and LF (a shorter run would not be followed by \<open>=\<close>), then
  \<open>=\<close>, then the group.\<close>

definition filename_match_at :: "string \<Rightarrow> string option" where
  "filename_match_at s =
     (if prefix ''filename'' s
      then (case dropWhile (\<lambda>c. c \<noteq> CHR '';'' \<and> c \<noteq> CHR ''='' \<and> c \<noteq> CHR 0x0A) (drop 8 s) of
              [] \<Rightarrow> None
            | c # v \<Rightarrow> if c = CHR ''='' then Some (filename_value v) else None)
      else None)"

text \<open>\<open>contentDisposition.match(...)\<close>: group 1 at the leftmost position where the
  pattern matches.\<close>

fun filenameMatch :: "string \<Rightarrow> string option" where
  "filenameMatch [] = None"
| "filenameMatch (c # cs) =
     (case filename_match_at (c # cs) of
        Some g \<Rightarrow> Some g
      | None \<Rightarrow> filenameMatch cs)"

text \<open>The file name: \<open>'download'\<close>, replaced when the header is present and not empty,
  the pattern matches and group 1 is not empty, by group 1 without any quote character
  (\<open>replace(/['"]/g, '')\<close>).\<close>

definition filename_of :: "string option \<Rightarrow> string" where
  "filename_of contentDisposition =
     (case contentDisposition of
        None \<Rightarrow> ''download''
      | Some cd \<Rightarrow>
          if cd = [] then ''download''
          else (case filenameMatch cd of
                  None \<Rightarrow> ''download''
                | Some g \<Rightarrow> if g \<noteq> [] then filter (\<lambda>c. \<not> is_quote c) g else ''download''))"

text \<open>
  \<open>parseInt(str)\<close> with no radix: leading white space is skipped, then an optional
  sign, then \<open>0x\<close> or \<open>0X\<close> selects radix 16, then the longest run of digits is read;
  no digit gives \<open>NaN\<close>. The result is the double nearest to the integer read, a
  tie going to the even one, and an infinity past the largest double. (For more than
  20 decimal digits the language lets an engine replace the digits after the 20th by 0
  before rounding; the model rounds the exact integer.)
\<close>

definition is_whitespace :: "char \<Rightarrow> bool" where
  "is_whitespace c \<longleftrightarrow> c \<in> set [CHR 0x09, CHR 0x0A, CHR 0x0B, CHR 0x0C, CHR 0x0D, CHR 0x20, CHR 0xA0]"

definition digit_value :: "nat \<Rightarrow> char \<Rightarrow> nat option" where
  "digit_value radix c =
     (let n = (of_char c :: nat);
          v = (if 48 \<le> n \<and> n \<le> 57 then Some (n - 48)
               else if 97 \<le> n \<and> n \<le> 122 then Some (n - 87)
               else if 65 \<le> n \<and> n \<le> 90 then Some (n - 55)
               else None)
      in case v of
           Some d \<Rightarrow> if d < radix then Some d else None
         | None \<Rightarrow> None)"

text \<open>The characters \<open>0\<close> to \<open>9\<close>.\<close>

definition decimal_digit :: "char \<Rightarrow> bool" where
  "decimal_digit c \<longleftrightarrow> (\<exists>d<10. c = digit_char d)"

fun digits_value :: "nat \<Rightarrow> nat \<Rightarrow> string \<Rightarrow> nat option \<Rightarrow> nat option" where
  "digits_value radix acc [] seen = seen"
| "digits_value radix acc (c # cs) seen =
     (case digit_value radix c of
        Some d \<Rightarrow> digits_value radix (acc * radix + d) cs (Some (acc * radix + d))
      | None \<Rightarrow> seen)"

text \<open>The number of bits of a natural number.\<close>

fun bit_length :: "nat \<Rightarrow> nat" where
  "bit_length n = (if n = 0 then 0 else Suc (bit_length (n div 2)))"

declare bit_length.simps [simp del]

text \<open>The double nearest to a natural number: 53 significant bits are kept, the rest
  is rounded to nearest, a tie to even; \<open>None\<close> when the result is past the largest
  double, \<open>(2^53 - 1) * 2^971\<close>.\<close>

definition to_double :: "nat \<Rightarrow> nat option" where
  "to_double n =
     (let e = bit_length n - 53;
          q = n div 2 ^ e;
          r = n mod 2 ^ e;
          rounded = (if 2 ^ e < 2 * r \<or> (2 * r = 2 ^ e \<and> odd q) then q + 1 else q) * 2 ^ e
      in if rounded < 2 ^ 1024 then Some rounded else None)"

definition parseInt :: "string \<Rightarrow> js_number" where
  "parseInt str =
     (let s = dropWhile is_whitespace str;
          neg = prefix ''-'' s;
          s1 = (if prefix ''-'' s \<or> prefix ''+'' s then drop 1 s else s);
          hex = (prefix ''0x'' s1 \<or> prefix ''0X'' s1);
          s2 = (if hex then drop 2 s1 else s1)
      in case digits_value (if hex then 16 else 10) 0 s2 None of
           None \<Rightarrow> NaN
         | Some n \<Rightarrow>
             (case to_double n of
                None \<Rightarrow> if neg then MinusInfinity else PlusInfinity
              | Some m \<Rightarrow> Finite (if neg then - int m else int m)))"

text \<open>A response of \<open>fetch\<close>: \<open>headers\<close> is \<open>response.headers.get\<close> (\<open>None\<close> for
  \<open>null\<close>); \<open>blob\<close> is what \<open>response.blob()\<close> settles with, \<open>Inr\<close> the size of the
  blob, \<open>Inl\<close> the message of the error.\<close>

record http_response =
  status :: nat
  statusText :: string
  headers :: "string \<Rightarrow> string option"
  blob :: "string + nat"

definition ok :: "http_response \<Rightarrow> bool" where
  "ok r \<longleftrightarrow> 200 \<le> status r \<and> status r \<le> 299"

record file_info =
  filename :: string
  info_size :: js_number
  info_type :: string

datatype download_status = Loading | Success | Error

record download_state =
  fileId :: "string option"
  downloadStatus :: download_status
  errorMessage :: string
  fileInfo :: "file_info option"

text \<open>What a run of the page's effect did besides changing the state: the requests
  sent, and the file names under which a save was triggered (\<open>link.click()\<close>).\<close>

record effects =
  requests :: "request list"
  saved :: "string list"

text \<open>The \<open>catch\<close> block: \<open>error.message || 'Failed to download file'\<close>.\<close>

definition download_failed :: "string \<Rightarrow> download_state \<Rightarrow> download_state" where
  "download_failed msg st =
     st\<lparr>downloadStatus := Error,
        errorMessage := (if msg \<noteq> [] then msg else ''Failed to download file'')\<rparr>"

text \<open>The object given to \<open>setFileInfo\<close>.\<close>

definition make_file_info :: "http_response \<Rightarrow> nat \<Rightarrow> file_info" where
  "make_file_info r blob_size =
     \<lparr>filename = filename_of (headers r ''content-disposition''),
      info_size = (case headers r ''content-length'' of
                     None \<Rightarrow> Finite (int blob_size)
                   | Some contentLength \<Rightarrow>
                       if contentLength \<noteq> [] then parseInt contentLength else Finite (int blob_size)),
      info_type = (case headers r ''content-type'' of
                     None \<Rightarrow> ''application/octet-stream''
                   | Some contentType \<Rightarrow>
                       if contentType \<noteq> [] then contentType else ''application/octet-stream'')\<rparr>"

text \<open>\<open>downloadFile\<close>; \<open>net\<close> is what \<open>fetch\<close> settles with for a URL, \<open>Inl\<close> the message
  of a rejection.\<close>

definition downloadFile ::
  "(string \<Rightarrow> string + http_response) \<Rightarrow> string \<Rightarrow> download_state \<Rightarrow> download_state \<times> effects" where
  "downloadFile net fid st =
     (let url = backend_base @ ''/download/'' @ fid;
          st1 = st\<lparr>downloadStatus := Loading\<rparr>
      in case net url of
           Inl msg \<Rightarrow> (download_failed msg st1, \<lparr>requests = [FetchGet url], saved = []\<rparr>)
         | Inr r \<Rightarrow>
             if \<not> ok r
             then (download_failed (''Download failed: '' @ show_nat (status r) @ '' '' @ statusText r) st1,
                   \<lparr>requests = [FetchGet url], saved = []\<rparr>)
             else (case blob r of
                     Inl msg \<Rightarrow> (download_failed msg st1, \<lparr>requests = [FetchGet url], saved = []\<rparr>)
                   | Inr blob_size \<Rightarrow>
                       (st1\<lparr>fileInfo := Some (make_file_info r blob_size), downloadStatus := Success\<rparr>,
                        \<lparr>requests = [FetchGet url],
                         saved = [filename_of (headers r ''content-disposition'')]\<rparr>)))"

text \<open>The page when it mounts at \<open>path\<close>: the initial state, then the effect, which
  returns at once when \<open>!fileId\<close>.\<close>

definition download_initial :: "string \<Rightarrow> download_state" where
  "download_initial path =
     \<lparr>fileId = getFileIdFromPath path, downloadStatus = Loading, errorMessage = [], fileInfo = None\<rparr>"

definition download_effect ::
  "(string \<Rightarrow> string + http_response) \<Rightarrow> download_state \<Rightarrow> download_state \<times> effects" where
  "download_effect net st =
     (case fileId st of
        None \<Rightarrow> (st\<lparr>downloadStatus := Error, errorMessage := ''No file ID provided''\<rparr>,
                 \<lparr>requests = [], saved = []\<rparr>)
      | Some fid \<Rightarrow>
          if fid = []
          then (st\<lparr>downloadStatus := Error, errorMessage := ''No file ID provided''\<rparr>,
                \<lparr>requests = [], saved = []\<rparr>)
          else downloadFile net fid st)"

definition DownloadPage :: "(string \<Rightarrow> string + http_response) \<Rightarrow> string \<Rightarrow> download_state \<times> effects" where
  "DownloadPage net path = download_effect net (download_initial path)"

section \<open>Size formatting\<close>

text \<open>\<open>Math.floor(Math.log(bytes) / Math.log(1024))\<close> for a positive integer, taken as
  the exact integer logarithm. The quotient of the two doubles has that floor for the
  sizes with a unit, below \<open>1024^4\<close>; close under a much higher power of 1024
  (\<open>2^50 - 1\<close>) the doubles give one more.\<close>

fun log1024 :: "nat \<Rightarrow> nat" where
  "log1024 n = (if n < 1024 then 0 else Suc (log1024 (n div 1024)))"

declare log1024.simps [simp del]

definition sizes :: "string list" where
  "sizes = [''Bytes'', ''KB'', ''MB'', ''GB'']"

text \<open>\<open>(bytes / Math.pow(k, i)).toFixed(2)\<close>, as a number of hundredths: the quotient
  by a power of two is exact, and \<open>toFixed\<close> rounds it to the nearest hundredth, a tie
  upwards. Its text has two decimals: \<open>1.00\<close> for 100 hundredths.\<close>

definition toFixed2 :: "nat \<Rightarrow> nat \<Rightarrow> nat" where
  "toFixed2 bytes d = (200 * bytes + d) div (2 * d)"

text \<open>\<open>parseFloat(text) + ' '\<close>: the number is read back from the text and printed again
  as a number is printed, with no trailing zero and no point before nothing.\<close>

definition number_text :: "nat \<Rightarrow> string" where
  "number_text h =
     show_nat (h div 100) @
       (if h mod 100 = 0 then []
        else if h mod 10 = 0 then [CHR ''.'', digit_char (h mod 100 div 10)]
        else [CHR ''.'', digit_char (h mod 100 div 10), digit_char (h mod 10)])"

text \<open>\<open>sizes[i]\<close>, printed: \<open>undefined\<close> past the end of the array.\<close>

definition size_unit :: "nat \<Rightarrow> string" where
  "size_unit i = (if i < length sizes then sizes ! i else ''undefined'')"

text \<open>\<open>formatFileSize\<close> of the upload component, for \<open>file.size\<close>.\<close>

definition formatFileSize :: "nat \<Rightarrow> string" where
  "formatFileSize bytes =
     (if bytes = 0 then ''0 Bytes''
      else number_text (toFixed2 bytes (1024 ^ log1024 bytes)) @ '' '' @ size_unit (log1024 bytes))"

text \<open>\<open>formatFileSize\<close> of the download page, for \<open>fileInfo.size\<close>: \<open>!bytes\<close> covers
  \<open>NaN\<close>; the logarithm of a negative number is \<open>NaN\<close>, and so is all that follows;
  for \<open>Infinity\<close> the quotient \<open>bytes / Math.pow(k, i)\<close> is \<open>NaN\<close>.\<close>

definition formatFileSize_download :: "js_number \<Rightarrow> string" where
  "formatFileSize_download bytes =
     (case bytes of
        NaN \<Rightarrow> ''0 Bytes''
      | Finite n \<Rightarrow>
          if n = 0 then ''0 Bytes''
          else if n < 0 then ''NaN undefined''
          else formatFileSize (nat n)
      | PlusInfinity \<Rightarrow> ''NaN undefined''
      | MinusInfinity \<Rightarrow> ''NaN undefined'')"

section \<open>Reading the specification\<close>

text \<open>The specification's rule for the internal URL: the fields are checked in order
  and the first one that is not empty wins.\<close>

fun first_nonempty :: "string list \<Rightarrow> string" where
  "first_nonempty [] = []"
| "first_nonempty (x # xs) = (if x \<noteq> [] then x else first_nonempty xs)"

text \<open>A field of a JSON object that is a string or is not there, and its text.\<close>

definition string_or_absent :: "(string \<times> jsval) list \<Rightarrow> string \<Rightarrow> bool" where
  "string_or_absent kvs p = (case map_of kvs p of None \<Rightarrow> True | Some (JStr s) \<Rightarrow> True | Some v \<Rightarrow> False)"

definition field_text :: "(string \<times> jsval) list \<Rightarrow> string \<Rightarrow> string" where
  "field_text kvs p = (case map_of kvs p of Some (JStr s) \<Rightarrow> s | Some v \<Rightarrow> [] | None \<Rightarrow> [])"

section \<open>A browser and a batch for the examples\<close>

definition example_browser :: browser where
  "example_browser =
     \<lparr>parseJSON = (\<lambda>s. if s = ''{\"downloadLink\":\"/download/abc123\"}''
                        then Some (JObj [(''downloadLink'', JStr ''/download/abc123'')])
                        else None),
      origin = ''https://files.example.com'',
      fl = (\<lambda>x. x),
      typeErrorMessage = (\<lambda>e. case e of
                                ReadOfNullish \<Rightarrow> ''Cannot read properties of null''
                              | NotAFunction \<Rightarrow> ''backendDownloadLink.match is not a function'')\<rparr>"

definition two_files :: upload_state where
  "two_files =
     \<lparr>selectedFiles = [\<lparr>file_name = ''a.txt'', file_size = 10\<rparr>, \<lparr>file_name = ''b.txt'', file_size = 20\<rparr>],
      isUploading = False, uploadProgress = 0, result = None,
      showQR = False, qrLoading = False, copySuccess = False\<rparr>"

text \<open>Four responses of the download endpoint: the one of the specification's success
  scenario, one with an unquoted file name and no \<open>Content-Length\<close>, one with an
  extended file name parameter, and one whose \<open>Content-Length\<close> is not a number.\<close>

definition report_response :: http_response where
  "report_response =
     \<lparr>status = 200, statusText = ''OK'',
      headers = (\<lambda>h. if h = ''content-disposition'' then Some ''attachment; filename=\"report.pdf\"''
                      else if h = ''content-length'' then Some ''2048''
                      else None),
      blob = Inr 2048\<rparr>"

definition plain_response :: http_response where
  "plain_response =
     \<lparr>status = 200, statusText = ''OK'',
      headers = (\<lambda>h. if h = ''content-disposition'' then Some ''attachment; filename=notes.txt''
                      else if h = ''content-type'' then Some ''text/plain''
                      else None),
      blob = Inr 7\<rparr>"

definition star_response :: http_response where
  "star_response =
     \<lparr>status = 200, statusText = ''OK'',
      headers = (\<lambda>h. if h = ''content-disposition''
                      then Some (''attachment; filename*=UTF-8'' @ [CHR 0x27, CHR 0x27] @ ''na%20me.txt'')
                      else None),
      blob = Inr 3\<rparr>"

definition bad_length_response :: http_response where
  "bad_length_response =
     \<lparr>status = 200, statusText = ''OK'',
      headers = (\<lambda>h. if h = ''content-length'' then Some ''abc'' else None),
      blob = Inr 5\<rparr>"

section \<open>Facts about the pattern\<close>

lemma match_download_nonempty: "match_download s = Some r \<Longrightarrow> dot_plus_to_end r"
  by (induction s) (auto split: if_splits)

lemma match_download_here:
  "dot_plus_to_end r \<Longrightarrow> match_download (''/download/'' @ r) = Some r"
  by simp

text \<open>A prefix of \<open>a @ b\<close> no longer than \<open>a\<close> is a prefix of \<open>a\<close>.\<close>

lemma prefix_of_longer:
  "prefix p (a @ b) \<Longrightarrow> length p \<le> length a \<Longrightarrow> prefix p a"
  by (auto simp: prefix_append)

text \<open>A match is an occurrence of \<open>/download/\<close> followed by the identifier.\<close>

lemma match_download_split:
  "match_download s = Some r \<Longrightarrow> \<exists>pre. s = pre @ ''/download/'' @ r"
proof (induction s)
  case Nil
  then show ?case by simp
next
  case (Cons c cs)
  show ?case
  proof (cases "prefix ''/download/'' (c # cs) \<and> dot_plus_to_end (drop 10 (c # cs))")
    case True
    then have r: "r = drop 10 (c # cs)" using Cons.prems by (simp del: Cons_prefix_Cons)
    from True obtain t where t: "c # cs = ''/download/'' @ t" unfolding prefix_def by blast
    have "drop 10 (c # cs) = t" unfolding t by simp
    with r t have "c # cs = [] @ ''/download/'' @ r" by simp
    then show ?thesis by blast
  next
    case False
    then have "match_download cs = Some r" using Cons.prems by (simp del: Cons_prefix_Cons split: if_splits)
    then obtain pre where "cs = pre @ ''/download/'' @ r" using Cons.IH by blast
    then have "c # cs = (c # pre) @ ''/download/'' @ r" by simp
    then show ?thesis by blast
  qed
qed

text \<open>With no occurrence that begins earlier, the occurrence after \<open>pre\<close> is the one
  that matches.\<close>

lemma match_download_first:
  assumes "dot_plus_to_end r" and "\<not> sublist ''/download/'' (pre @ ''/download'')"
  shows "match_download (pre @ ''/download/'' @ r) = Some r"
  using assms
proof (induction pre)
  case Nil
  then show ?case by simp
next
  case (Cons c pre)
  have np: "\<not> prefix ''/download/'' (c # pre @ ''/download'')"
    and ns: "\<not> sublist ''/download/'' (pre @ ''/download'')"
    using Cons.prems(2) by (simp_all add: sublist_Cons_right)
  have "\<not> prefix ''/download/'' ((c # pre @ ''/download'') @ (''/'' @ r))"
  proof
    assume "prefix ''/download/'' ((c # pre @ ''/download'') @ (''/'' @ r))"
    then have "prefix ''/download/'' (c # pre @ ''/download'')"
      by (rule prefix_of_longer) simp
    with np show False by blast
  qed
  then have "\<not> prefix ''/download/'' (c # pre @ ''/download/'' @ r)" by (simp del: Cons_prefix_Cons)
  then have "match_download ((c # pre) @ ''/download/'' @ r) = match_download (pre @ ''/download/'' @ r)"
    by (simp del: Cons_prefix_Cons)
  with Cons.IH[OF Cons.prems(1) ns] show ?case by simp
qed

text \<open>Without line terminators, the match is at the first occurrence.\<close>

lemma match_download_leftmost:
  assumes "match_download s = Some r" and "list_all (\<lambda>c. \<not> is_line_terminator c) s"
  shows "\<exists>pre. s = pre @ ''/download/'' @ r \<and> \<not> sublist ''/download/'' (pre @ ''/download'')"
  using assms
proof (induction s)
  case Nil
  then show ?case by simp
next
  case (Cons c cs)
  show ?case
  proof (cases "prefix ''/download/'' (c # cs) \<and> dot_plus_to_end (drop 10 (c # cs))")
    case True
    then have r: "r = drop 10 (c # cs)" using Cons.prems by (simp del: Cons_prefix_Cons)
    from True obtain t where t: "c # cs = ''/download/'' @ t" unfolding prefix_def by blast
    have "drop 10 (c # cs) = t" unfolding t by simp
    with r t have "c # cs = [] @ ''/download/'' @ r" by simp
    moreover have "\<not> sublist ''/download/'' ([] @ ''/download'')"
      by (simp add: sublist_Cons_right)
    ultimately show ?thesis by blast
  next
    case False
    then have m: "match_download cs = Some r" using Cons.prems by (simp del: Cons_prefix_Cons split: if_splits)
    have "list_all (\<lambda>c. \<not> is_line_terminator c) cs" using Cons.prems(2) by simp
    with m Cons.IH obtain pre where pre: "cs = pre @ ''/download/'' @ r"
      and ns: "\<not> sublist ''/download/'' (pre @ ''/download'')" by blast
    have rne: "dot_plus_to_end r" using m by (rule match_download_nonempty)
    have "\<not> prefix ''/download/'' (c # pre @ ''/download'')"
    proof
      assume p: "prefix ''/download/'' (c # pre @ ''/download'')"
      have eq: "c # cs = (c # pre @ ''/download'') @ (''/'' @ r)" using pre by simp
      from p have "prefix ''/download/'' ((c # pre @ ''/download'') @ (''/'' @ r))"
        by (rule prefix_prefix)
      then have "prefix ''/download/'' (c # cs)" by (simp only: eq)
      with False have nd: "\<not> dot_plus_to_end (drop 10 (c # cs))" by blast
      have "list_all (\<lambda>c. \<not> is_line_terminator c) (drop 10 (c # cs))"
        using Cons.prems(2) unfolding list_all_iff by (meson in_set_dropD)
      with nd have "drop 10 (c # cs) = []" by (simp add: dot_plus_to_end_def)
      then have "length (c # cs) \<le> 10" by simp
      moreover have "length (c # cs) = 11 + length pre + length r" unfolding pre by simp
      ultimately show False by simp
    qed
    with ns have "\<not> sublist ''/download/'' ((c # pre) @ ''/download'')"
      by (simp add: sublist_Cons_right)
    moreover have "c # cs = (c # pre) @ ''/download/'' @ r" using pre by simp
    ultimately show ?thesis by blast
  qed
qed

text \<open>The dot of the pattern refuses a line terminator. A link of the backend can
  hold one, and then it is a later occurrence that matches; a path name cannot.\<close>

lemma match_download_line_feed:
  "match_download (''/download/a'' @ [CHR 0x0A] @ ''/download/b'') = Some ''b''"
  by (simp add: dot_plus_to_end_def is_line_terminator_def)

section \<open>Removing a file\<close>

text \<open>Filtering by position: nothing goes when the index is outside the positions of
  the list, and the element at the index goes otherwise.\<close>

lemma filter_enumerate_remove:
  "map snd (filter (\<lambda>(i, f). int i \<noteq> index) (enumerate n xs)) =
     (if index < int n \<or> int n + int (length xs) \<le> index then xs
      else take (nat index - n) xs @ drop (Suc (nat index - n)) xs)"
proof (induction xs arbitrary: n)
  case Nil
  then show ?case by simp
next
  case (Cons x xs)
  show ?case
  proof (cases "int n = index")
    case True
    then have "map snd (filter (\<lambda>(i, f). int i \<noteq> index) (enumerate (Suc n) xs)) = xs"
      using Cons.IH[of "Suc n"] by simp
    with True show ?thesis by auto
  next
    case False
    show ?thesis
    proof (cases "index < int n")
      case True
      then show ?thesis using Cons.IH[of "Suc n"] by simp
    next
      case above: False
      with False have e: "nat index - n = Suc (nat index - Suc n)" by linarith
      from above False have "\<not> index < int (Suc n)" by simp
      then show ?thesis using Cons.IH[of "Suc n"] False above by (simp add: e)
    qed
  qed
qed

text \<open>
  Claim C10. \<open>removeFile(index)\<close> with an index outside \<open>[0, length)\<close> leaves the
  whole state as it is. With an index in range it changes only \<open>selectedFiles\<close>,
  which loses exactly the descriptor at that position: the descriptors before it and
  those after it stay, in their order.
\<close>

theorem removeFile_index:
  "(index < 0 \<or> int (length (selectedFiles st)) \<le> index \<longrightarrow> removeFile index st = st) \<and>
   (0 \<le> index \<and> index < int (length (selectedFiles st)) \<longrightarrow>
      removeFile index st =
        st\<lparr>selectedFiles :=
             take (nat index) (selectedFiles st) @ drop (Suc (nat index)) (selectedFiles st)\<rparr>)"
  using filter_enumerate_remove[of index 0 "selectedFiles st"]
  by (auto simp add: removeFile_def)

theorem removeFile_index_witness:
  "removeFile 5 two_files = two_files \<and>
   removeFile (- 1) two_files = two_files \<and>
   removeFile 0 two_files = two_files\<lparr>selectedFiles := [\<lparr>file_name = ''b.txt'', file_size = 20\<rparr>]\<rparr>"
  using removeFile_index[of 5 two_files] removeFile_index[of "- 1" two_files]
    removeFile_index[of 0 two_files]
  by (simp add: two_files_def)

section \<open>The empty batch\<close>

text \<open>
  Claim C4. \<open>uploadFiles\<close> with an empty batch does nothing: the state that comes
  back is the state that went in, every field of it, and no request is sent.
\<close>

theorem uploadFiles_empty_batch:
  "selectedFiles st = [] \<Longrightarrow> uploadFiles b events c st = (st, [])"
  by (simp add: uploadFiles_def)

theorem uploadFiles_empty_batch_witness:
  "uploadFiles example_browser [] OnError (two_files\<lparr>selectedFiles := []\<rparr>) =
     (two_files\<lparr>selectedFiles := []\<rparr>, [])"
  using uploadFiles_empty_batch[of "two_files\<lparr>selectedFiles := []\<rparr>" example_browser "[]" OnError]
  by simp

section \<open>Facts about the path name\<close>

text \<open>A character that is passed through is no control, no space, no separator, no
  \<open>?\<close> and no \<open>#\<close>, and is its own encoding.\<close>

lemma url_path_char_plain:
  assumes "url_path_char c"
  shows "\<not> c0_control_or_space c" "\<not> tab_or_newline c" "\<not> is_separator c"
    "c \<noteq> CHR ''?''" "c \<noteq> CHR ''#''" "\<not> is_line_terminator c" "percent_encode_char c = [c]"
proof -
  from assms have e: "\<not> in_path_percent_encode_set c" and s: "\<not> is_separator c"
    by (simp_all add: url_path_char_def)
  from e have lo: "31 < (of_char c :: nat)" and sp: "c \<noteq> CHR 0x20" and q: "c \<noteq> CHR ''?''"
    and h: "c \<noteq> CHR ''#''"
    by (auto simp: in_path_percent_encode_set_def)
  show "\<not> is_separator c" by (rule s)
  show "c \<noteq> CHR ''?''" by (rule q)
  show "c \<noteq> CHR ''#''" by (rule h)
  show "percent_encode_char c = [c]" using e by (simp add: percent_encode_char_def)
  show "\<not> tab_or_newline c" using lo by (auto simp: tab_or_newline_def)
  show "\<not> is_line_terminator c" using lo by (auto simp: is_line_terminator_def)
  show "\<not> c0_control_or_space c"
  proof
    assume "c0_control_or_space c"
    then have "(of_char c :: nat) \<le> 32" by (simp add: c0_control_or_space_def)
    with lo have "(of_char c :: nat) = 32" by simp
    then have "(of_char c :: nat) = of_char (CHR 0x20)" by simp
    then have "c = CHR 0x20" by (simp only: of_char_eq_iff)
    with sp show False by simp
  qed
qed

lemma strip_trailing_keeps:
  "s \<noteq> [] \<Longrightarrow> \<not> c0_control_or_space (last s) \<Longrightarrow> strip_trailing s = s"
  by (cases s rule: rev_cases) (simp_all add: strip_trailing_def)

lemma segments_last:
  "list_all (\<lambda>c. \<not> is_separator c) s \<Longrightarrow> segments buf s = [(buf @ s, False)]"
  by (induction s arbitrary: buf) simp_all

lemma segments_next:
  "list_all (\<lambda>c. \<not> is_separator c) s \<Longrightarrow> is_separator c \<Longrightarrow>
   segments buf (s @ c # cs) = (buf @ s, True) # segments [] cs"
  by (induction s arbitrary: buf) simp_all

lemma percent_encode_plain:
  "list_all url_path_char s \<Longrightarrow> percent_encode s = s"
  by (induction s) (simp_all add: percent_encode_def url_path_char_plain(7))

lemma url_pathname_plain:
  assumes "fid \<noteq> []" and "list_all url_path_char fid"
    and "\<not> single_dot_segment fid" and "\<not> double_dot_segment fid"
  shows "url_pathname (''/download/'' @ fid) = ''/download/'' @ fid"
proof -
  have all: "\<And>c. c \<in> set fid \<Longrightarrow> url_path_char c" using assms(2) by (simp add: list_all_iff)
  have "last fid \<in> set fid" using assms(1) by simp
  then have "\<not> c0_control_or_space (last (''/download/'' @ fid))"
    using assms(1) all url_path_char_plain(1) by simp
  then have 1: "strip_trailing (''/download/'' @ fid) = ''/download/'' @ fid"
    by (intro strip_trailing_keeps) simp_all
  have 2: "filter (\<lambda>c. \<not> tab_or_newline c) (''/download/'' @ fid) = ''/download/'' @ fid"
    using all url_path_char_plain(2) by (simp add: tab_or_newline_def filter_id_conv)
  have "takeWhile (\<lambda>c. c \<noteq> CHR ''?'' \<and> c \<noteq> CHR ''#'') fid = fid"
    using all url_path_char_plain(4,5) by (simp add: takeWhile_eq_all_conv)
  then have 3: "takeWhile (\<lambda>c. c \<noteq> CHR ''?'' \<and> c \<noteq> CHR ''#'') (''/download/'' @ fid) = ''/download/'' @ fid"
    by simp
  have ns: "list_all (\<lambda>c. \<not> is_separator c) fid"
    using all url_path_char_plain(3) by (simp add: list_all_iff)
  have d: "list_all (\<lambda>c. \<not> is_separator c) ''download''" by (simp add: is_separator_def)
  have "segments [] (''download'' @ CHR ''/'' # fid) = ([] @ ''download'', True) # segments [] fid"
    using d by (rule segments_next) (simp add: is_separator_def)
  then have 4: "segments [] (''download/'' @ fid) = [(''download'', True), (fid, False)]"
    using segments_last[OF ns, of "[]"] by simp
  have pd: "percent_encode ''download'' = ''download''"
    by (rule percent_encode_plain)
       (simp add: url_path_char_def in_path_percent_encode_set_def is_separator_def)
  have pf: "percent_encode fid = fid" using assms(2) by (rule percent_encode_plain)
  have dd: "\<not> double_dot_segment ''download''" "\<not> single_dot_segment ''download''"
    by (simp_all add: double_dot_segment_def single_dot_segment_def)
  have 5: "path_state [] [(''download'', True), (fid, False)] = [''download'', fid]"
    using assms(3,4) dd by (simp add: pd pf)
  have c: "(case ''/download/'' @ fid of [] \<Rightarrow> [] | c # cs \<Rightarrow> if is_separator c then cs else c # cs) =
      ''download/'' @ fid"
    by (simp add: is_separator_def)
  show ?thesis
    unfolding url_pathname_def Let_def 1 2 3 c 4 5 by simp
qed

text \<open>No line terminator comes out of the parser: what is not removed is encoded.\<close>

lemma hex_cases:
  "k < 16 \<Longrightarrow> k = 0 \<or> k = 1 \<or> k = 2 \<or> k = 3 \<or> k = 4 \<or> k = 5 \<or> k = 6 \<or> k = 7 \<or> k = 8 \<or>
     k = 9 \<or> k = 10 \<or> k = 11 \<or> k = 12 \<or> k = 13 \<or> k = 14 \<or> k = (15::nat)"
  by arith

lemma hex_digit_plain: "k < 16 \<Longrightarrow> \<not> is_line_terminator (hex_digit k)"
  by (drule hex_cases) (elim disjE; simp add: hex_digit_def is_line_terminator_def)

lemma percent_byte_plain: "n < 256 \<Longrightarrow> list_all (\<lambda>c. \<not> is_line_terminator c) (percent_byte n)"
proof -
  assume "n < 256"
  then have "n div 16 < 16" by simp
  then have 1: "\<not> is_line_terminator (hex_digit (n div 16))" by (rule hex_digit_plain)
  have "n mod 16 < 16" by simp
  then have 2: "\<not> is_line_terminator (hex_digit (n mod 16))" by (rule hex_digit_plain)
  have 3: "\<not> is_line_terminator (CHR ''%'')" by (simp add: is_line_terminator_def)
  from 1 2 3 show ?thesis by (simp add: percent_byte_def)
qed

lemma percent_encode_char_no_line_terminator:
  "list_all (\<lambda>c. \<not> is_line_terminator c) (percent_encode_char c)"
proof (cases "in_path_percent_encode_set c")
  case False
  then have "31 < (of_char c :: nat)" by (auto simp: in_path_percent_encode_set_def)
  then have "\<not> is_line_terminator c" by (auto simp: is_line_terminator_def)
  with False show ?thesis by (simp add: percent_encode_char_def)
next
  case True
  have n: "(of_char c :: nat) < 256" by simp
  have "x div 64 < 4" if "x < 256" for x :: nat
    using that by (simp add: div_less_iff_less_mult)
  from this[OF n] have "(of_char c :: nat) div 64 < 4" .
  then have a: "192 + (of_char c :: nat) div 64 < 256" by simp
  have b: "128 + (of_char c :: nat) mod 64 < 256"
  proof -
    have "(of_char c :: nat) mod 64 < 64" by simp
    then show ?thesis by simp
  qed
  show ?thesis using True percent_byte_plain[OF n] percent_byte_plain[OF a] percent_byte_plain[OF b]
    by (simp add: percent_encode_char_def Let_def)
qed

lemma percent_encode_no_line_terminator:
  "list_all (\<lambda>c. \<not> is_line_terminator c) (percent_encode s)"
  using percent_encode_char_no_line_terminator
  by (induction s) (simp_all add: percent_encode_def)

lemma path_state_no_line_terminator:
  "list_all (list_all (\<lambda>c. \<not> is_line_terminator c)) path \<Longrightarrow>
   list_all (list_all (\<lambda>c. \<not> is_line_terminator c)) (path_state path segs)"
proof (induction path segs rule: path_state.induct)
  case (1 path)
  then show ?case by simp
next
  case (2 path buf sep rest)
  have b: "list_all (list_all (\<lambda>c. \<not> is_line_terminator c)) (butlast path)"
    using "2.prems" unfolding list_all_iff by (meson in_set_butlastD)
  show ?case
  proof (cases "double_dot_segment (percent_encode buf)")
    case True
    with b "2.IH"(1) show ?thesis by simp
  next
    case nd: False
    show ?thesis
    proof (cases "single_dot_segment (percent_encode buf)")
      case True
      with nd "2.prems" "2.IH"(2) show ?thesis by simp
    next
      case False
      with nd "2.prems" "2.IH"(3) percent_encode_no_line_terminator[of buf] show ?thesis by simp
    qed
  qed
qed

lemma url_pathname_no_line_terminator:
  "list_all (\<lambda>c. \<not> is_line_terminator c) (url_pathname rest)"
proof -
  have "list_all (\<lambda>c. \<not> is_line_terminator c) (concat (map (\<lambda>seg. CHR ''/'' # seg) path))"
    if "list_all (list_all (\<lambda>c. \<not> is_line_terminator c)) path" for path
    using that by (induction path) (simp_all add: is_line_terminator_def)
  moreover have "list_all (list_all (\<lambda>c. \<not> is_line_terminator c)) (path_state [] segs)" for segs
    by (rule path_state_no_line_terminator) simp
  ultimately show ?thesis by (simp add: url_pathname_def Let_def)
qed

section \<open>The identifier round trip\<close>

text \<open>
  Claim C3, amended. For every http or https origin and every identifier that is not
  empty, is made of characters that a URL path holds as they are (printable ASCII other
  than the space, \<open>" # < > ? ^ ` { }\<close>, the slash and the backslash) and is not a dot
  segment (\<open>.\<close>, \<open>..\<close>, or these with \<open>%2e\<close> for a dot): the public URL of the link
  \<open>/download/{id}\<close> is \<open>{origin}/download/{id}\<close>, the browser at that URL reports the
  path name \<open>/download/{id}\<close>, and the download page extracts the identifier from it.
\<close>

theorem getFileIdFromPath_roundtrip:
  assumes "fid \<noteq> []" and "list_all url_path_char fid"
    and "\<not> single_dot_segment fid" and "\<not> double_dot_segment fid"
    and "http_origin org"
  shows "frontendDownloadUrl org (''/download/'' @ fid) = org @ ''/download/'' @ fid \<and>
         pathname_at org (frontendDownloadUrl org (''/download/'' @ fid)) = Some (''/download/'' @ fid) \<and>
         download_page_id org (frontendDownloadUrl org (''/download/'' @ fid)) = Some fid"
proof -
  have lt: "list_all (\<lambda>c. \<not> is_line_terminator c) fid"
    using assms(2) url_path_char_plain(6) by (simp add: list_all_iff)
  with assms(1) have d: "dot_plus_to_end fid" by (simp add: dot_plus_to_end_def)
  then have m: "match_download (''/download/'' @ fid) = Some fid" by (rule match_download_here)
  then have f: "frontendDownloadUrl org (''/download/'' @ fid) = org @ ''/download/'' @ fid"
    by (simp only: frontendDownloadUrl_def option.case)
  have "pathname_at org (org @ ''/download/'' @ fid) = Some (url_pathname (''/download/'' @ fid))"
    using assms(5) by (simp add: pathname_at_def is_separator_def)
  then have p: "pathname_at org (org @ ''/download/'' @ fid) = Some (''/download/'' @ fid)"
    using url_pathname_plain[OF assms(1-4)] by simp
  have g: "getFileIdFromPath (''/download/'' @ fid) = Some fid"
    using m by (simp only: getFileIdFromPath_def option.case)
  from f p g show ?thesis by (simp add: download_page_id_def)
qed

theorem getFileIdFromPath_roundtrip_witness:
  "frontendDownloadUrl ''https://files.example.com'' (''/download/'' @ ''abc123'') =
     ''https://files.example.com'' @ ''/download/'' @ ''abc123'' \<and>
   pathname_at ''https://files.example.com''
     (frontendDownloadUrl ''https://files.example.com'' (''/download/'' @ ''abc123'')) =
     Some (''/download/'' @ ''abc123'') \<and>
   download_page_id ''https://files.example.com''
     (frontendDownloadUrl ''https://files.example.com'' (''/download/'' @ ''abc123'')) = Some ''abc123''"
  by (rule getFileIdFromPath_roundtrip)
     (simp_all add: url_path_char_def in_path_percent_encode_set_def is_separator_def
        single_dot_segment_def double_dot_segment_def http_origin_def)

text \<open>The claim as stated fails for the empty identifier, which has no slash: the
  link \<open>/download/\<close> does not match the pattern, so the public URL is the backend base
  followed by the link, and no identifier is found, neither in the path name of that
  URL nor in the URL itself.\<close>

theorem roundtrip_empty_id_counterexample:
  "CHR ''/'' \<notin> set [] \<and>
   frontendDownloadUrl ''https://files.example.com'' (''/download/'' @ []) =
     ''https://upload-qodp.onrender.com/download/'' \<and>
   download_page_id ''https://upload-qodp.onrender.com''
     (frontendDownloadUrl ''https://files.example.com'' (''/download/'' @ [])) = None \<and>
   getFileIdFromPath (frontendDownloadUrl ''https://files.example.com'' (''/download/'' @ [])) = None"
proof -
  have f: "frontendDownloadUrl ''https://files.example.com'' (''/download/'' @ []) =
     ''https://upload-qodp.onrender.com/download/''"
    by (simp add: frontendDownloadUrl_def backend_base_def dot_plus_to_end_def)
  have o: "http_origin ''https://upload-qodp.onrender.com''"
    by (simp add: http_origin_def is_separator_def)
  have u: "url_pathname ''/download/'' = ''/download/''"
    by (simp add: url_pathname_def strip_trailing_def c0_control_or_space_def tab_or_newline_def
      is_separator_def percent_encode_def percent_encode_char_def in_path_percent_encode_set_def
      single_dot_segment_def double_dot_segment_def Let_def)
  have p: "pathname_at ''https://upload-qodp.onrender.com'' ''https://upload-qodp.onrender.com/download/'' =
     Some ''/download/''"
    using o u by (simp add: pathname_at_def is_separator_def)
  have g: "getFileIdFromPath ''/download/'' = None"
    by (simp add: getFileIdFromPath_def dot_plus_to_end_def)
  have w: "getFileIdFromPath ''https://upload-qodp.onrender.com/download/'' = None"
    by (simp add: getFileIdFromPath_def dot_plus_to_end_def)
  show ?thesis unfolding f using p g w by (simp add: download_page_id_def)
qed

section \<open>The identifier extractor\<close>

text \<open>
  Claim C9. The extractor never returns the empty string. Its input is the path name
  of a URL, and a path name has no line terminator: the parser removes tabs and
  newlines and percent-encodes the other controls. For every path without line
  terminator, the extractor returns an identifier exactly when the path has an
  occurrence of \<open>/download/\<close> with something after it, and the identifier is then all
  that follows the first occurrence, slashes included.
\<close>

theorem getFileIdFromPath_result:
  "getFileIdFromPath path \<noteq> Some [] \<and>
   (list_all (\<lambda>c. \<not> is_line_terminator c) path \<longrightarrow>
      (getFileIdFromPath path = Some fid \<longleftrightarrow>
         fid \<noteq> [] \<and> (\<exists>pre. path = pre @ ''/download/'' @ fid \<and>
                          \<not> sublist ''/download/'' (pre @ ''/download'')))) \<and>
   list_all (\<lambda>c. \<not> is_line_terminator c) (url_pathname rest)"
proof (intro conjI impI)
  show "list_all (\<lambda>c. \<not> is_line_terminator c) (url_pathname rest)"
    by (rule url_pathname_no_line_terminator)
  show "getFileIdFromPath path \<noteq> Some []"
  proof
    assume "getFileIdFromPath path = Some []"
    then have "match_download path = Some []"
      by (simp add: getFileIdFromPath_def split: option.splits)
    then have "dot_plus_to_end []" by (rule match_download_nonempty)
    then show False by (simp add: dot_plus_to_end_def)
  qed
next
  assume lt: "list_all (\<lambda>c. \<not> is_line_terminator c) path"
  have g: "getFileIdFromPath path = match_download path"
    by (simp add: getFileIdFromPath_def split: option.splits)
  show "getFileIdFromPath path = Some fid \<longleftrightarrow>
         fid \<noteq> [] \<and> (\<exists>pre. path = pre @ ''/download/'' @ fid \<and>
                          \<not> sublist ''/download/'' (pre @ ''/download''))"
  proof
    assume "getFileIdFromPath path = Some fid"
    then have m: "match_download path = Some fid" using g by simp
    then have "dot_plus_to_end fid" by (rule match_download_nonempty)
    then have "fid \<noteq> []" by (simp add: dot_plus_to_end_def)
    with match_download_leftmost[OF m lt] show "fid \<noteq> [] \<and> (\<exists>pre. path = pre @ ''/download/'' @ fid \<and>
                          \<not> sublist ''/download/'' (pre @ ''/download''))" by blast
  next
    assume a: "fid \<noteq> [] \<and> (\<exists>pre. path = pre @ ''/download/'' @ fid \<and>
                          \<not> sublist ''/download/'' (pre @ ''/download''))"
    then obtain pre where p: "path = pre @ ''/download/'' @ fid"
      and ns: "\<not> sublist ''/download/'' (pre @ ''/download'')" by blast
    have "list_all (\<lambda>c. \<not> is_line_terminator c) fid" using lt unfolding p by simp
    with a have "dot_plus_to_end fid" by (simp add: dot_plus_to_end_def)
    then have "match_download (pre @ ''/download/'' @ fid) = Some fid"
      using ns by (rule match_download_first)
    then show "getFileIdFromPath path = Some fid" using g p by simp
  qed
qed

theorem getFileIdFromPath_result_witness:
  "getFileIdFromPath (url_pathname ''/download/a/b?x=1'') = Some ''a/b''"
proof -
  have u: "url_pathname ''/download/a/b?x=1'' = ''/download/a/b''"
    by (simp add: url_pathname_def strip_trailing_def c0_control_or_space_def tab_or_newline_def
      is_separator_def percent_encode_def percent_encode_char_def in_path_percent_encode_set_def
      single_dot_segment_def double_dot_segment_def Let_def)
  note t = getFileIdFromPath_result[of "url_pathname ''/download/a/b?x=1''" "''a/b''" "''/download/a/b?x=1''"]
  have "''a/b'' \<noteq> [] \<and> (\<exists>pre. url_pathname ''/download/a/b?x=1'' = pre @ ''/download/'' @ ''a/b'' \<and>
                          \<not> sublist ''/download/'' (pre @ ''/download''))"
    unfolding u by (simp add: exI[of _ "[]"] sublist_Cons_right)
  with t show ?thesis by blast
qed

section \<open>The download page without an identifier\<close>

text \<open>
  Claim C5. For every path that does not match the pattern (no occurrence of
  \<open>/download/\<close> is followed to the end of the path by one or more characters that the
  dot accepts), the extractor returns \<open>null\<close>, and the download page ends in status
  \<open>error\<close> with the message \<open>No file ID provided\<close>, having sent no request and
  saved nothing.
\<close>

theorem no_file_id:
  assumes "\<not> (\<exists>pre r. path = pre @ ''/download/'' @ r \<and> dot_plus_to_end r)"
  shows "getFileIdFromPath path = None \<and>
         DownloadPage net path =
           (\<lparr>fileId = None, downloadStatus = Error, errorMessage = ''No file ID provided'',
             fileInfo = None\<rparr>,
            \<lparr>requests = [], saved = []\<rparr>)"
proof -
  have "match_download path = None"
  proof (cases "match_download path")
    case None
    then show ?thesis .
  next
    case (Some r)
    from match_download_split[OF Some] match_download_nonempty[OF Some] assms
    show ?thesis by blast
  qed
  then have g: "getFileIdFromPath path = None" by (simp add: getFileIdFromPath_def)
  then show ?thesis
    by (simp add: DownloadPage_def download_effect_def download_initial_def)
qed

theorem no_file_id_witness:
  "getFileIdFromPath ''/download/'' = None \<and>
   DownloadPage (\<lambda>url. Inl ''unreachable'') ''/download/'' =
           (\<lparr>fileId = None, downloadStatus = Error, errorMessage = ''No file ID provided'',
             fileInfo = None\<rparr>,
            \<lparr>requests = [], saved = []\<rparr>)"
proof (rule no_file_id)
  show "\<not> (\<exists>pre r. ''/download/'' = pre @ ''/download/'' @ r \<and> dot_plus_to_end r)"
  proof
    assume "\<exists>pre r. ''/download/'' = pre @ ''/download/'' @ r \<and> dot_plus_to_end r"
    then obtain pre r where e: "''/download/'' = pre @ ''/download/'' @ r" and d: "dot_plus_to_end r"
      by blast
    from e have "length ''/download/'' = length (pre @ ''/download/'' @ r)" by (rule arg_cong)
    then have "r = []" by simp
    with d show False by (simp add: dot_plus_to_end_def)
  qed
qed

section \<open>Upload progress\<close>

lemma fold_on_progress:
  "\<exists>p. fold (on_progress b) events s = s\<lparr>uploadProgress := p\<rparr>"
proof (induction events arbitrary: s)
  case Nil
  have "s = s\<lparr>uploadProgress := uploadProgress s\<rparr>" by simp
  then show ?case by (metis fold_simps(1))
next
  case (Cons e es)
  obtain q where q: "on_progress b e s = s\<lparr>uploadProgress := q\<rparr>"
    by (cases "lengthComputable e") (auto simp: on_progress_def intro: that[of "uploadProgress s"])
  from Cons.IH[of "on_progress b e s"] obtain p
    where "fold (on_progress b) es (on_progress b e s) = (on_progress b e s)\<lparr>uploadProgress := p\<rparr>"
    by blast
  then have "fold (on_progress b) (e # es) s = s\<lparr>uploadProgress := p\<rparr>" by (simp add: q)
  then show ?case by blast
qed

lemma upload_complete_progress:
  "uploadProgress (upload_complete b c s) = 0 \<and> isUploading (upload_complete b c s) = False"
  by (simp add: upload_complete_def Let_def)

lemma progress_states_map:
  "\<forall>e\<in>set events. lengthComputable e \<Longrightarrow>
   map uploadProgress (progress_states b events s) =
     map (\<lambda>e. fl b (fl b (real (loaded e) / real (total e)) * 100)) events"
  by (induction events arbitrary: s) (simp_all add: on_progress_def)

lemma progress_states_last:
  "fold (on_progress b) events s = last (s # progress_states b events s)"
  by (induction events arbitrary: s) simp_all

text \<open>
  Claim C7. Let the progress events of one upload all have a computable length and the
  upload's total \<open>T > 0\<close>, with \<open>loaded\<close> never decreasing. After each event
  \<open>uploadProgress\<close> is \<open>(loaded / total) * 100\<close> as computed in doubles; the values,
  from the 0 set at the start, never decrease; and when the upload completes, whatever
  the completion is, \<open>uploadProgress\<close> is 0 again. Rounding to a double is monotone
  and keeps 0, which is all that is used of it.
\<close>

theorem progress_monotone:
  assumes "mono (fl b)" and "fl b 0 = 0"
    and "\<forall>e\<in>set events. lengthComputable e \<and> total e = T" and "0 < T"
    and "sorted (map loaded events)"
    and "selectedFiles st \<noteq> []"
  shows "map uploadProgress (progress_states b events (upload_begin st)) =
           map (\<lambda>e. fl b (fl b (real (loaded e) / real T) * 100)) events \<and>
         sorted (uploadProgress (upload_begin st) # map uploadProgress (progress_states b events (upload_begin st))) \<and>
         uploadProgress (upload_begin st) = 0 \<and>
         fst (uploadFiles b events c st) =
           upload_complete b c (last (upload_begin st # progress_states b events (upload_begin st))) \<and>
         uploadProgress (fst (uploadFiles b events c st)) = 0"
proof -
  let ?g = "\<lambda>n. fl b (fl b (real n / real T) * 100)"
  have m: "map uploadProgress (progress_states b events (upload_begin st)) =
           map (\<lambda>e. fl b (fl b (real (loaded e) / real T) * 100)) events"
    using assms(3) by (simp add: progress_states_map)
  have g_mono: "?g x \<le> ?g y" if "x \<le> y" for x y :: nat
  proof -
    have "real x / real T \<le> real y / real T" using that assms(4) by (simp add: divide_right_mono)
    then have "fl b (real x / real T) \<le> fl b (real y / real T)" by (rule monoD[OF assms(1)])
    then have "fl b (real x / real T) * 100 \<le> fl b (real y / real T) * 100" by simp
    then show ?thesis by (rule monoD[OF assms(1)])
  qed
  have g0: "?g 0 = 0" using assms(2) by simp
  have g_nonneg: "0 \<le> ?g n" for n using g_mono[of 0 n] g0 by simp
  have "sorted (map ?g (map loaded events))"
    using assms(5) g_mono by (induction events) auto
  then have s: "sorted (map (\<lambda>e. ?g (loaded e)) events)" by (simp add: comp_def)
  have z: "uploadProgress (upload_begin st) = 0" by (simp add: upload_begin_def)
  have "sorted (0 # map (\<lambda>e. ?g (loaded e)) events)" using s g_nonneg by auto
  then have s2: "sorted (uploadProgress (upload_begin st) # map uploadProgress (progress_states b events (upload_begin st)))"
    by (simp only: m z)
  have u: "fst (uploadFiles b events c st) =
           upload_complete b c (last (upload_begin st # progress_states b events (upload_begin st)))"
    using assms(6) by (simp add: uploadFiles_def progress_states_last)
  have "uploadProgress (fst (uploadFiles b events c st)) = 0"
    by (simp only: u upload_complete_progress)
  with m s2 z u show ?thesis by blast
qed

theorem progress_monotone_witness:
  "map uploadProgress
     (progress_states example_browser
        [\<lparr>lengthComputable = True, loaded = 50, total = 200\<rparr>,
         \<lparr>lengthComputable = True, loaded = 150, total = 200\<rparr>] (upload_begin two_files)) = [25, 75] \<and>
   uploadProgress (fst (uploadFiles example_browser
        [\<lparr>lengthComputable = True, loaded = 50, total = 200\<rparr>,
         \<lparr>lengthComputable = True, loaded = 150, total = 200\<rparr>] OnError two_files)) = 0"
proof -
  have 1: "mono (fl example_browser)" by (simp add: example_browser_def mono_def)
  have 2: "fl example_browser 0 = 0" by (simp add: example_browser_def)
  have 3: "\<forall>e\<in>set [\<lparr>lengthComputable = True, loaded = 50, total = 200\<rparr>,
         \<lparr>lengthComputable = True, loaded = 150, total = 200\<rparr>]. lengthComputable e \<and> total e = 200"
    by simp
  have 4: "(0::nat) < 200" by simp
  have 5: "sorted (map loaded [\<lparr>lengthComputable = True, loaded = 50, total = 200\<rparr>,
         \<lparr>lengthComputable = True, loaded = (150::nat), total = 200\<rparr>])" by simp
  have 6: "selectedFiles two_files \<noteq> []" by (simp add: two_files_def)
  have fle: "fl example_browser x = x" for x by (simp add: example_browser_def)
  note t = progress_monotone[OF 1 2 3 4 5 6, of OnError]
  have r: "map (\<lambda>e. fl example_browser (fl example_browser (real (loaded e) / real (200::nat)) * 100))
             [\<lparr>lengthComputable = True, loaded = 50, total = 200\<rparr>,
              \<lparr>lengthComputable = True, loaded = 150, total = 200\<rparr>] = [25, 75]"
    by (simp add: fle)
  from t r show ?thesis by (elim conjE) (simp only:)
qed

section \<open>Upload failures\<close>

lemma getProp_object_field:
  "string_or_absent kvs p \<Longrightarrow>
   getProp (JObj kvs) p = Inr (if field_text kvs p \<noteq> [] then JStr (field_text kvs p)
                              else (case map_of kvs p of None \<Rightarrow> JUndefined | Some v \<Rightarrow> JStr []))"
  by (cases "map_of kvs p"; simp add: string_or_absent_def field_text_def split: jsval.splits)

lemma backendDownloadLink_object:
  assumes "string_or_absent kvs ''downloadLink''" and "string_or_absent kvs ''url''"
    and "string_or_absent kvs ''link''"
  shows "\<exists>v. backendDownloadLink (JObj kvs) = Inr v \<and>
             (let l = first_nonempty [field_text kvs ''downloadLink'', field_text kvs ''url'', field_text kvs ''link'']
              in if l \<noteq> [] then v = JStr l else \<not> truthy v)"
proof -
  note a = getProp_object_field[OF assms(1)] getProp_object_field[OF assms(2)]
    getProp_object_field[OF assms(3)]
  show ?thesis
    unfolding backendDownloadLink_def a
    by (simp add: Let_def split: option.splits)
qed

lemma on_resolved_object:
  assumes "string_or_absent kvs ''downloadLink''" and "string_or_absent kvs ''url''"
    and "string_or_absent kvs ''link''"
    and "l = first_nonempty [field_text kvs ''downloadLink'', field_text kvs ''url'', field_text kvs ''link'']"
  shows "\<exists>v. on_resolved b (JObj kvs) s =
           Inr (s\<lparr>result := Some (ResultSuccess (if l \<noteq> [] then frontendDownloadUrl (origin b) l else [])
                                      v (result_files (JObj kvs) (selectedFiles s)) (JObj kvs)),
                  selectedFiles := []\<rparr>) \<and>
             (l \<noteq> [] \<longrightarrow> v = JStr l)"
proof -
  from backendDownloadLink_object[OF assms(1-3)] obtain v
    where v: "backendDownloadLink (JObj kvs) = Inr v"
      and c: "if l \<noteq> [] then v = JStr l else \<not> truthy v"
    unfolding assms(4) Let_def by blast
  show ?thesis
  proof (cases "l = []")
    case True
    with c have "\<not> truthy v" by simp
    then show ?thesis using True v
      by (intro exI[of _ v]) (simp add: on_resolved_def convert_link_def)
  next
    case False
    with c have "v = JStr l" by simp
    then show ?thesis using False v
      by (intro exI[of _ v]) (simp add: on_resolved_def convert_link_def)
  qed
qed

text \<open>
  Claim C1, amended. For a batch that is not empty: a network failure ends the session
  \<open>Failed\<close> with the message \<open>Upload failed - Network error\<close>; a response whose
  status is not exactly 200 ends it \<open>Failed\<close> with the response text as the message
  if that is not empty, and \<open>HTTP {status}\<close> otherwise (so status 500 with the text
  \<open>disk full\<close> gives the message \<open>disk full\<close>); a response with status 200 whose
  text parses to a JSON object in which each of \<open>downloadLink\<close>, \<open>url\<close>, \<open>link\<close>
  is a string or absent does not fail: the session ends \<open>Succeeded\<close>.
\<close>

theorem upload_failure:
  assumes "selectedFiles st \<noteq> []"
  shows
    "(result (fst (uploadFiles b events OnError st)) = Some (ResultError ''Upload failed - Network error'')
        \<and> upload_status (fst (uploadFiles b events OnError st)) = Failed) \<and>
     (code \<noteq> 200 \<longrightarrow>
        result (fst (uploadFiles b events (OnLoad code body) st)) =
          Some (ResultError (if body \<noteq> [] then body else ''HTTP '' @ show_nat code))
        \<and> upload_status (fst (uploadFiles b events (OnLoad code body) st)) = Failed) \<and>
     (result (fst (uploadFiles b events (OnLoad 500 ''disk full'') st)) = Some (ResultError ''disk full'')
        \<and> upload_status (fst (uploadFiles b events (OnLoad 500 ''disk full'') st)) = Failed) \<and>
     (parseJSON b body = Some (JObj kvs) \<and> string_or_absent kvs ''downloadLink'' \<and>
      string_or_absent kvs ''url'' \<and> string_or_absent kvs ''link'' \<longrightarrow>
        upload_status (fst (uploadFiles b events (OnLoad 200 body) st)) = Succeeded)"
proof (intro conjI impI)
  show "result (fst (uploadFiles b events OnError st)) = Some (ResultError ''Upload failed - Network error'')"
    using assms by (simp add: uploadFiles_def upload_complete_def xhr_promise_def on_caught_def)
  show "upload_status (fst (uploadFiles b events OnError st)) = Failed"
    using assms by (simp add: uploadFiles_def upload_complete_def xhr_promise_def on_caught_def upload_status_def)
  show "result (fst (uploadFiles b events (OnLoad 500 ''disk full'') st)) = Some (ResultError ''disk full'')"
    using assms by (simp add: uploadFiles_def upload_complete_def xhr_promise_def on_caught_def)
  show "upload_status (fst (uploadFiles b events (OnLoad 500 ''disk full'') st)) = Failed"
    using assms by (simp add: uploadFiles_def upload_complete_def xhr_promise_def on_caught_def upload_status_def)
next
  assume "code \<noteq> 200"
  then show "result (fst (uploadFiles b events (OnLoad code body) st)) =
          Some (ResultError (if body \<noteq> [] then body else ''HTTP '' @ show_nat code))"
    using assms by (simp add: uploadFiles_def upload_complete_def xhr_promise_def on_caught_def)
next
  assume "code \<noteq> 200"
  then show "upload_status (fst (uploadFiles b events (OnLoad code body) st)) = Failed"
    using assms by (simp add: uploadFiles_def upload_complete_def xhr_promise_def on_caught_def upload_status_def)
next
  assume a: "parseJSON b body = Some (JObj kvs) \<and> string_or_absent kvs ''downloadLink'' \<and>
      string_or_absent kvs ''url'' \<and> string_or_absent kvs ''link''"
  let ?s = "fold (on_progress b) events (upload_begin st)"
  from a on_resolved_object[of kvs _ b ?s, OF _ _ _ refl]
  obtain v u where "on_resolved b (JObj kvs) ?s =
      Inr (?s\<lparr>result := Some (ResultSuccess u v (result_files (JObj kvs) (selectedFiles ?s)) (JObj kvs)),
              selectedFiles := []\<rparr>)" by blast
  then show "upload_status (fst (uploadFiles b events (OnLoad 200 body) st)) = Succeeded"
    using assms a by (simp add: uploadFiles_def upload_complete_def xhr_promise_def upload_status_def)
qed

theorem upload_failure_witness:
  "result (fst (uploadFiles example_browser [] (OnLoad 500 ''disk full'') two_files)) =
     Some (ResultError ''disk full'') \<and>
   result (fst (uploadFiles example_browser [] (OnLoad 404 [] ) two_files)) =
     Some (ResultError ''HTTP 404'') \<and>
   upload_status (fst (uploadFiles example_browser [] OnError two_files)) = Failed \<and>
   upload_status (fst (uploadFiles example_browser []
      (OnLoad 200 ''{\"downloadLink\":\"/download/abc123\"}'') two_files)) = Succeeded"
proof -
  have f: "selectedFiles two_files \<noteq> []" by (simp add: two_files_def)
  have p: "parseJSON example_browser ''{\"downloadLink\":\"/download/abc123\"}'' =
             Some (JObj [(''downloadLink'', JStr ''/download/abc123'')])"
    by (simp add: example_browser_def)
  have s: "string_or_absent [(''downloadLink'', JStr ''/download/abc123'')] ''downloadLink''"
    "string_or_absent [(''downloadLink'', JStr ''/download/abc123'')] ''url''"
    "string_or_absent [(''downloadLink'', JStr ''/download/abc123'')] ''link''"
    by (simp_all add: string_or_absent_def)
  have n: "show_nat 404 = ''404''" by (simp add: show_nat.simps digit_char_def)
  from upload_failure[OF f, of example_browser "[]" 404 "[]"
      "[(''downloadLink'', JStr ''/download/abc123'')]"]
    upload_failure[OF f, of example_browser "[]" 500 "''{\"downloadLink\":\"/download/abc123\"}''"
      "[(''downloadLink'', JStr ''/download/abc123'')]"] p s n
  show ?thesis by simp
qed

text \<open>The claim as stated fails for a 2xx status other than 200: the response is
  received, its status 201 is in the 2xx range, its text parses, and the session ends
  \<open>Failed\<close>.\<close>

theorem upload_status_201_counterexample:
  "(200::nat) \<le> 201 \<and> (201::nat) \<le> 299 \<and>
   parseJSON example_browser ''{\"downloadLink\":\"/download/abc123\"}'' \<noteq> None \<and>
   selectedFiles two_files \<noteq> [] \<and>
   upload_status (fst (uploadFiles example_browser []
      (OnLoad 201 ''{\"downloadLink\":\"/download/abc123\"}'') two_files)) = Failed"
  by (simp add: example_browser_def two_files_def uploadFiles_def upload_complete_def xhr_promise_def
      on_caught_def upload_status_def upload_begin_def)

text \<open>A text that does not parse, with status 200, is taken as the response itself.
  A string has the built-in method \<open>link\<close>, which is truthy and has no \<open>match\<close>:
  the handler raises, and the message is the engine's.\<close>

lemma unparseable_body_raises:
  assumes "selectedFiles st \<noteq> []" and "parseJSON b body = None"
  shows "result (fst (uploadFiles b events (OnLoad 200 body) st)) =
           Some (ResultError (if typeErrorMessage b NotAFunction \<noteq> [] then typeErrorMessage b NotAFunction
                              else ''Upload failed''))"
  using assms
  by (simp add: uploadFiles_def upload_complete_def xhr_promise_def on_resolved_def
      backendDownloadLink_def convert_link_def string_prototype_def on_caught_def)

section \<open>Upload success\<close>

text \<open>
  Claim C2, amended. For a batch that is not empty and a response with status exactly
  200 whose text parses to a JSON object in which each of \<open>downloadLink\<close>, \<open>url\<close>,
  \<open>link\<close> is a string or absent and at least one is a string that is not empty: the
  internal URL is the first of the three, in that order, that is not empty; the session
  ends \<open>Succeeded\<close>, with the batch emptied, progress 0, one request sent, and the
  result holding the frontend URL, the internal URL, the files (those of the response,
  else the names of the batch) and the response; and when the internal URL is
  \<open>/download/{id}\<close>, with an id that is not empty and has no line terminator, the
  frontend URL is \<open>{origin}/download/{id}\<close>.
\<close>

theorem upload_success:
  assumes "selectedFiles st \<noteq> []"
    and "parseJSON b body = Some (JObj kvs)"
    and "string_or_absent kvs ''downloadLink''" and "string_or_absent kvs ''url''"
    and "string_or_absent kvs ''link''"
    and "l = first_nonempty [field_text kvs ''downloadLink'', field_text kvs ''url'', field_text kvs ''link'']"
    and "l \<noteq> []"
  shows "uploadFiles b events (OnLoad 200 body) st =
           (st\<lparr>selectedFiles := [], isUploading := False, uploadProgress := 0,
               result := Some (ResultSuccess (frontendDownloadUrl (origin b) l) (JStr l)
                                 (result_files (JObj kvs) (selectedFiles st)) (JObj kvs))\<rparr>,
            [XhrPost upload_url (selectedFiles st)]) \<and>
         upload_status (fst (uploadFiles b events (OnLoad 200 body) st)) = Succeeded \<and>
         (\<forall>fid. l = ''/download/'' @ fid \<and> dot_plus_to_end fid \<longrightarrow>
            frontendDownloadUrl (origin b) l = origin b @ ''/download/'' @ fid)"
proof -
  obtain p where p: "fold (on_progress b) events (upload_begin st) = (upload_begin st)\<lparr>uploadProgress := p\<rparr>"
    using fold_on_progress by blast
  let ?s = "(upload_begin st)\<lparr>uploadProgress := p\<rparr>"
  from on_resolved_object[OF assms(3-6), of b ?s] assms(7)
  have r: "on_resolved b (JObj kvs) ?s =
           Inr (?s\<lparr>result := Some (ResultSuccess (frontendDownloadUrl (origin b) l) (JStr l)
                       (result_files (JObj kvs) (selectedFiles ?s)) (JObj kvs)),
                  selectedFiles := []\<rparr>)"
    by auto
  have u: "uploadFiles b events (OnLoad 200 body) st =
           (st\<lparr>selectedFiles := [], isUploading := False, uploadProgress := 0,
               result := Some (ResultSuccess (frontendDownloadUrl (origin b) l) (JStr l)
                                 (result_files (JObj kvs) (selectedFiles st)) (JObj kvs))\<rparr>,
            [XhrPost upload_url (selectedFiles st)])"
  proof -
    have "uploadFiles b events (OnLoad 200 body) st =
            (?s\<lparr>result := Some (ResultSuccess (frontendDownloadUrl (origin b) l) (JStr l)
                       (result_files (JObj kvs) (selectedFiles ?s)) (JObj kvs)),
                  selectedFiles := [], isUploading := False, uploadProgress := 0\<rparr>,
             [XhrPost upload_url (selectedFiles st)])"
      using assms(1,2) by (simp add: uploadFiles_def upload_complete_def xhr_promise_def p r)
    then show ?thesis by (simp add: upload_begin_def)
  qed
  have s: "upload_status (fst (uploadFiles b events (OnLoad 200 body) st)) = Succeeded"
    unfolding u by (simp add: upload_status_def)
  have f: "\<forall>fid. l = ''/download/'' @ fid \<and> dot_plus_to_end fid \<longrightarrow>
            frontendDownloadUrl (origin b) l = origin b @ ''/download/'' @ fid"
  proof (intro allI impI)
    fix fid assume a: "l = ''/download/'' @ fid \<and> dot_plus_to_end fid"
    then have "match_download l = Some fid" using match_download_here by blast
    then show "frontendDownloadUrl (origin b) l = origin b @ ''/download/'' @ fid"
      by (simp only: frontendDownloadUrl_def option.case)
  qed
  from u s f show ?thesis by blast
qed

theorem upload_success_witness:
  "uploadFiles example_browser [] (OnLoad 200 ''{\"downloadLink\":\"/download/abc123\"}'') two_files =
     (two_files\<lparr>selectedFiles := [], isUploading := False, uploadProgress := 0,
        result := Some (ResultSuccess ''https://files.example.com/download/abc123'' (JStr ''/download/abc123'')
                          (JArr [JObj [(''name'', JStr ''a.txt'')], JObj [(''name'', JStr ''b.txt'')]])
                          (JObj [(''downloadLink'', JStr ''/download/abc123'')]))\<rparr>,
      [XhrPost upload_url (selectedFiles two_files)])"
proof -
  let ?kvs = "[(''downloadLink'', JStr ''/download/abc123'')]"
  have 1: "selectedFiles two_files \<noteq> []" by (simp add: two_files_def)
  have 2: "parseJSON example_browser ''{\"downloadLink\":\"/download/abc123\"}'' = Some (JObj ?kvs)"
    by (simp add: example_browser_def)
  have 3: "string_or_absent ?kvs ''downloadLink''" "string_or_absent ?kvs ''url''"
    "string_or_absent ?kvs ''link''"
    by (simp_all add: string_or_absent_def)
  have 4: "''/download/abc123'' =
      first_nonempty [field_text ?kvs ''downloadLink'', field_text ?kvs ''url'', field_text ?kvs ''link'']"
    by (simp add: field_text_def)
  have 5: "''/download/abc123'' \<noteq> []" by simp
  have d: "dot_plus_to_end ''abc123''" by (simp add: dot_plus_to_end_def is_line_terminator_def)
  have o: "origin example_browser = ''https://files.example.com''" by (simp add: example_browser_def)
  have rf: "result_files (JObj ?kvs) (selectedFiles two_files) =
      JArr [JObj [(''name'', JStr ''a.txt'')], JObj [(''name'', JStr ''b.txt'')]]"
    by (simp add: result_files_def two_files_def)
  note t = upload_success[OF 1 2 3 4 5, of "[]"]
  from t d show ?thesis unfolding rf o by simp
qed

text \<open>The claim as stated fails for a successful response whose status is not 200:
  with status 201 and the same body, the session does not end \<open>Succeeded\<close> and the
  batch is kept.\<close>

theorem upload_success_201_counterexample:
  "(200::nat) \<le> 201 \<and> (201::nat) \<le> 299 \<and>
   parseJSON example_browser ''{\"downloadLink\":\"/download/abc123\"}'' =
     Some (JObj [(''downloadLink'', JStr ''/download/abc123'')]) \<and>
   upload_status (fst (uploadFiles example_browser []
      (OnLoad 201 ''{\"downloadLink\":\"/download/abc123\"}'') two_files)) \<noteq> Succeeded \<and>
   selectedFiles (fst (uploadFiles example_browser []
      (OnLoad 201 ''{\"downloadLink\":\"/download/abc123\"}'') two_files)) \<noteq> []"
  by (simp add: example_browser_def two_files_def uploadFiles_def upload_complete_def xhr_promise_def
      on_caught_def upload_status_def upload_begin_def)

section \<open>Size formatting: results\<close>

lemma log1024_between:
  "1024 ^ i \<le> n \<Longrightarrow> n < 1024 ^ Suc i \<Longrightarrow> log1024 n = i"
proof (induction i arbitrary: n)
  case 0
  then show ?case by (simp add: log1024.simps)
next
  case (Suc i)
  from Suc.prems(1) have big: "1024 \<le> n"
    by (metis One_nat_def le_trans one_le_numeral one_le_power power_Suc mult.right_neutral mult_le_mono2)
  have lo: "1024 ^ i \<le> n div 1024" using Suc.prems(1) by (simp add: less_eq_div_iff_mult_less_eq mult.commute)
  have hi: "n div 1024 < 1024 ^ Suc i" using Suc.prems(2) by (simp add: div_less_iff_less_mult mult.commute)
  from Suc.IH[OF lo hi] big show ?case by (simp add: log1024.simps[of n])
qed

lemma toFixed2_nearest:
  "0 < d \<Longrightarrow> 2 * d * toFixed2 bytes d \<le> 200 * bytes + d \<and> 200 * bytes + d < 2 * d * (toFixed2 bytes d + 1)"
proof -
  assume "0 < d"
  then have p: "0 < 2 * d" by simp
  have "2 * d * ((200 * bytes + d) div (2 * d)) \<le> 200 * bytes + d" by simp
  moreover have "200 * bytes + d < 2 * d * ((200 * bytes + d) div (2 * d) + 1)"
    using p by (metis Suc_eq_plus1 dividend_less_times_div mult.commute mult_Suc_right add.commute)
  ultimately show ?thesis by (simp add: toFixed2_def)
qed

text \<open>
  Claim C8, amended. The helper renders 0 as \<open>0 Bytes\<close>, and a count from
  \<open>1024^i\<close> up to, not including, \<open>1024^(i+1)\<close>, for \<open>i\<close> from 0 to 3, as the
  count divided by \<open>1024^i\<close>, rounded to the nearest hundredth, followed by a space and
  the unit \<open>Bytes\<close>, \<open>KB\<close>, \<open>MB\<close> or \<open>GB\<close>. The number is printed with at
  most two decimals and without trailing zeros: no point when it is whole, one decimal
  when the second would be 0. So 1024 gives \<open>1 KB\<close> and 1536 gives \<open>1.5 KB\<close>. The
  download page's copy agrees, and renders \<open>NaN\<close> as \<open>0 Bytes\<close> too.
\<close>

theorem formatFileSize_values:
  "formatFileSize 0 = ''0 Bytes'' \<and> formatFileSize 1024 = ''1 KB'' \<and> formatFileSize 1536 = ''1.5 KB'' \<and>
   formatFileSize_download (Finite 0) = ''0 Bytes'' \<and> formatFileSize_download NaN = ''0 Bytes'' \<and>
   formatFileSize_download (Finite 1024) = ''1 KB'' \<and>
   formatFileSize_download (Finite 1536) = ''1.5 KB'' \<and>
   (i < 4 \<and> 1024 ^ i \<le> bytes \<and> bytes < 1024 ^ Suc i \<longrightarrow>
      formatFileSize bytes = number_text (toFixed2 bytes (1024 ^ i)) @ '' '' @ sizes ! i \<and>
      formatFileSize_download (Finite (int bytes)) = formatFileSize bytes \<and>
      2 * 1024 ^ i * toFixed2 bytes (1024 ^ i) \<le> 200 * bytes + 1024 ^ i \<and>
      200 * bytes + 1024 ^ i < 2 * 1024 ^ i * (toFixed2 bytes (1024 ^ i) + 1)) \<and>
   number_text (100 * a) = show_nat a \<and>
   (0 < d \<and> d < 10 \<longrightarrow> number_text (100 * a + 10 * d) = show_nat a @ ''.'' @ [digit_char d]) \<and>
   (d < 10 \<and> 0 < e \<and> e < 10 \<longrightarrow>
      number_text (100 * a + 10 * d + e) = show_nat a @ ''.'' @ [digit_char d, digit_char e])"
proof (intro conjI impI)
  show "formatFileSize 0 = ''0 Bytes''" by (simp add: formatFileSize_def)
  show k: "formatFileSize 1024 = ''1 KB''"
    by (simp add: formatFileSize_def log1024.simps toFixed2_def number_text_def show_nat.simps
        digit_char_def size_unit_def sizes_def)
  show h: "formatFileSize 1536 = ''1.5 KB''"
    by (simp add: formatFileSize_def log1024.simps toFixed2_def number_text_def show_nat.simps
        digit_char_def size_unit_def sizes_def)
  show "formatFileSize_download (Finite 0) = ''0 Bytes''" by (simp add: formatFileSize_download_def)
  show "formatFileSize_download NaN = ''0 Bytes''" by (simp add: formatFileSize_download_def)
  show "formatFileSize_download (Finite 1024) = ''1 KB''"
    using k by (simp add: formatFileSize_download_def)
  show "formatFileSize_download (Finite 1536) = ''1.5 KB''"
    using h by (simp add: formatFileSize_download_def)
  show "number_text (100 * a) = show_nat a" by (simp add: number_text_def)
next
  assume a: "i < 4 \<and> 1024 ^ i \<le> bytes \<and> bytes < 1024 ^ Suc i"
  then have l: "log1024 bytes = i" using log1024_between by blast
  from a have pos: "0 < bytes" by (metis less_le_trans zero_less_numeral zero_less_power)
  show f: "formatFileSize bytes = number_text (toFixed2 bytes (1024 ^ i)) @ '' '' @ sizes ! i"
    using a pos by (simp add: formatFileSize_def l size_unit_def sizes_def)
  show "formatFileSize_download (Finite (int bytes)) = formatFileSize bytes"
    using pos by (simp add: formatFileSize_download_def)
  have "(0::nat) < 1024 ^ i" by simp
  from toFixed2_nearest[OF this, of bytes]
  show "2 * 1024 ^ i * toFixed2 bytes (1024 ^ i) \<le> 200 * bytes + 1024 ^ i"
    and "200 * bytes + 1024 ^ i < 2 * 1024 ^ i * (toFixed2 bytes (1024 ^ i) + 1)"
    by blast+
next
  assume a: "0 < d \<and> d < 10"
  then have "10 * d < 100" by simp
  then have "(100 * a + 10 * d) div 100 = a" "(100 * a + 10 * d) mod 100 = 10 * d"
    by simp_all
  moreover have "(100 * a + 10 * d) mod 10 = 0"
  proof -
    have "100 * a + 10 * d = 10 * (10 * a + d)" by simp
    then show ?thesis by (metis mod_mult_self1_is_0)
  qed
  ultimately have "(100 * a + 10 * d) div 100 = a" "(100 * a + 10 * d) mod 100 = 10 * d"
    "(100 * a + 10 * d) mod 10 = 0" by blast+
  with a show "number_text (100 * a + 10 * d) = show_nat a @ ''.'' @ [digit_char d]"
    by (simp add: number_text_def)
next
  assume a: "d < 10 \<and> 0 < e \<and> e < 10"
  then have r: "10 * d + e < 100" by simp
  have "(100 * a + (10 * d + e)) div 100 = a" "(100 * a + (10 * d + e)) mod 100 = 10 * d + e"
    using r by simp_all
  then have "(100 * a + 10 * d + e) div 100 = a" "(100 * a + 10 * d + e) mod 100 = 10 * d + e"
    by (simp_all only: add.assoc)
  moreover have "(100 * a + 10 * d + e) mod 10 = e"
  proof -
    have "100 * a + 10 * d + e = 10 * (10 * a + d) + e" by simp
    then show ?thesis using a by (metis mod_mult_self4 mod_less)
  qed
  moreover have "(10 * d + e) div 10 = d" using a by simp
  ultimately have "(100 * a + 10 * d + e) div 100 = a" "(100 * a + 10 * d + e) mod 100 = 10 * d + e"
    "(100 * a + 10 * d + e) mod 10 = e" "(10 * d + e) div 10 = d" by blast+
  with a show "number_text (100 * a + 10 * d + e) = show_nat a @ ''.'' @ [digit_char d, digit_char e]"
    by (simp add: number_text_def)
qed

theorem formatFileSize_values_witness:
  "formatFileSize 1047552 = ''1023 KB'' \<and> formatFileSize 1572864 = ''1.5 MB'' \<and>
   number_text 150 = ''1.5'' \<and> number_text 125 = ''1.25''"
proof -
  have b1: "(1::nat) < 4 \<and> 1024 ^ 1 \<le> (1047552::nat) \<and> (1047552::nat) < 1024 ^ Suc 1" by simp
  have b2: "(2::nat) < 4 \<and> 1024 ^ 2 \<le> (1572864::nat) \<and> (1572864::nat) < 1024 ^ Suc 2" by simp
  have n1: "show_nat 1 = ''1''" by (simp add: show_nat.simps digit_char_def)
  have t1: "toFixed2 1047552 1024 = 102300" by (simp add: toFixed2_def)
  have t2: "toFixed2 1572864 1048576 = 150" by (simp add: toFixed2_def)
  have n2: "number_text 102300 = ''1023''"
    by (simp add: number_text_def show_nat.simps digit_char_def)
  have n3: "number_text 150 = ''1.5''"
    using formatFileSize_values[of 0 0 1 5 0] n1 by (simp add: digit_char_def)
  have n4: "number_text 125 = ''1.25''"
    using formatFileSize_values[of 0 0 1 2 5] n1 by (simp add: digit_char_def)
  from formatFileSize_values[of 1 1047552 0 0 0] b1 t1 n2
  have f1: "formatFileSize 1047552 = ''1023 KB''" by (simp add: sizes_def)
  from formatFileSize_values[of 2 1572864 0 0 0] b2 t2 n3
  have f2: "formatFileSize 1572864 = ''1.5 MB''" by (simp add: sizes_def)
  from f1 f2 n3 n4 show ?thesis by blast
qed

text \<open>The claim's two examples with decimals: the text that \<open>toFixed(2)\<close> returns
  goes through \<open>parseFloat\<close>, and the number is printed without the zeros.\<close>

theorem formatFileSize_1024_counterexample:
  "formatFileSize 1024 \<noteq> ''1.00 KB'' \<and> formatFileSize 1536 \<noteq> ''1.50 KB''"
  by (simp add: formatFileSize_def log1024.simps toFixed2_def number_text_def show_nat.simps
        digit_char_def size_unit_def sizes_def)

section \<open>The file information of a download\<close>

lemma filename_match_at_found:
  assumes "list_all (\<lambda>c. c \<noteq> CHR '';'' \<and> c \<noteq> CHR ''='' \<and> c \<noteq> CHR 0x0A) mid"
  shows "filename_match_at (''filename'' @ mid @ ''='' @ v) = Some (filename_value v)"
proof -
  let ?P = "\<lambda>c. c \<noteq> CHR '';'' \<and> c \<noteq> CHR ''='' \<and> c \<noteq> CHR 0x0A"
  have "dropWhile ?P mid = []" using assms by (simp add: list_all_iff)
  moreover have "\<not> ?P (CHR ''='')" by simp
  ultimately have d: "dropWhile ?P (mid @ CHR ''='' # v) = CHR ''='' # v"
    by (simp add: dropWhile_append3)
  have p: "prefix ''filename'' (''filename'' @ mid @ ''='' @ v)" by simp
  have e: "drop 8 (''filename'' @ mid @ ''='' @ v) = mid @ CHR ''='' # v" by simp
  show ?thesis unfolding filename_match_at_def e d using p by (simp del: Cons_prefix_Cons)
qed

lemma filenameMatch_skip:
  assumes "\<not> sublist ''filename'' (pre @ ''filenam'')"
  shows "filenameMatch (pre @ ''filename'' @ t) = filenameMatch (''filename'' @ t)"
  using assms
proof (induction pre)
  case Nil
  then show ?case by simp
next
  case (Cons c pre)
  have np: "\<not> prefix ''filename'' (c # pre @ ''filenam'')"
    and ns: "\<not> sublist ''filename'' (pre @ ''filenam'')"
    using Cons.prems by (simp_all add: sublist_Cons_right del: Cons_prefix_Cons)
  have "\<not> prefix ''filename'' ((c # pre @ ''filenam'') @ (''e'' @ t))"
  proof
    assume "prefix ''filename'' ((c # pre @ ''filenam'') @ (''e'' @ t))"
    then have "prefix ''filename'' (c # pre @ ''filenam'')"
      by (rule prefix_of_longer) simp
    with np show False by blast
  qed
  then have "\<not> prefix ''filename'' (c # pre @ ''filename'' @ t)" by (simp del: Cons_prefix_Cons)
  then have "filename_match_at (c # pre @ ''filename'' @ t) = None"
    by (simp only: filename_match_at_def if_False)
  then have "filenameMatch ((c # pre) @ ''filename'' @ t) = filenameMatch (pre @ ''filename'' @ t)"
    by simp
  with Cons.IH[OF ns] show ?case by simp
qed

lemma filenameMatch_found:
  assumes "\<not> sublist ''filename'' (pre @ ''filenam'')"
    and "list_all (\<lambda>c. c \<noteq> CHR '';'' \<and> c \<noteq> CHR ''='' \<and> c \<noteq> CHR 0x0A) mid"
  shows "filenameMatch (pre @ ''filename'' @ mid @ ''='' @ v) = Some (filename_value v)"
proof -
  have "filenameMatch (''filename'' @ mid @ ''='' @ v) = Some (filename_value v)"
    using filename_match_at_found[OF assms(2), of v]
    by (simp del: Cons_prefix_Cons)
  with filenameMatch_skip[OF assms(1), of "mid @ ''='' @ v"] show ?thesis by simp
qed

lemma filenameMatch_None:
  "\<not> sublist ''filename'' cd \<Longrightarrow> filenameMatch cd = None"
proof (induction cd)
  case Nil
  then show ?case by simp
next
  case (Cons c cs)
  then have np: "\<not> prefix ''filename'' (c # cs)" and ns: "\<not> sublist ''filename'' cs"
    by (simp_all add: sublist_Cons_right del: Cons_prefix_Cons)
  from np have "filename_match_at (c # cs) = None"
    by (simp only: filename_match_at_def if_False)
  with Cons.IH[OF ns] show ?case by simp
qed

lemma filename_value_quoted:
  assumes "is_quote q" and "q \<notin> set name" and "list_all (\<lambda>c. \<not> is_line_terminator c) name"
  shows "filename_value (q # name @ q # rest) = q # name @ [q]"
proof -
  have "takeWhile (\<lambda>c. c \<noteq> q) (name @ q # rest) = name"
    using assms(2) by (auto simp: takeWhile_tail)
  then show ?thesis using assms(1,3) by (simp add: filename_value_def Let_def)
qed

lemma filename_value_unquoted:
  assumes "list_all (\<lambda>c. c \<noteq> CHR '';'' \<and> c \<noteq> CHR 0x0A) name"
    and "name = [] \<or> \<not> is_quote (hd name)"
    and "rest = [] \<or> hd rest = CHR '';'' \<or> hd rest = CHR 0x0A"
  shows "filename_value (name @ rest) = name"
proof -
  let ?P = "\<lambda>c. c \<noteq> CHR '';'' \<and> c \<noteq> CHR 0x0A"
  have t0: "takeWhile ?P rest = []" using assms(3) by (cases rest) auto
  have all: "\<forall>c\<in>set name. ?P c" using assms(1) by (simp add: list_all_iff)
  then have t: "takeWhile ?P (name @ rest) = name" using t0 by (simp add: takeWhile_append2)
  have nq: "name @ rest \<noteq> [] \<Longrightarrow> \<not> is_quote (hd (name @ rest))"
  proof (cases name)
    case Nil
    assume "name @ rest \<noteq> []"
    with Nil assms(3) have "hd rest = CHR '';'' \<or> hd rest = CHR 0x0A" by simp
    then show ?thesis using Nil by (auto simp: is_quote_def)
  next
    case (Cons a as)
    then show ?thesis using assms(2) by simp
  qed
  show ?thesis
  proof (cases "name @ rest")
    case Nil
    then show ?thesis by (simp add: filename_value_def)
  next
    case (Cons c cs)
    with nq have "\<not> is_quote c" by simp
    then show ?thesis using t Cons by (simp add: filename_value_def Let_def)
  qed
qed


lemma filename_of_quoted:
  assumes "\<not> sublist ''filename'' (pre @ ''filenam'')"
    and "list_all (\<lambda>c. c \<noteq> CHR '';'' \<and> c \<noteq> CHR ''='' \<and> c \<noteq> CHR 0x0A) mid"
    and "is_quote q" and "q \<notin> set name" and "list_all (\<lambda>c. \<not> is_line_terminator c) name"
  shows "filename_of (Some (pre @ ''filename'' @ mid @ ''='' @ [q] @ name @ [q] @ rest)) =
           filter (\<lambda>c. \<not> is_quote c) name"
proof -
  have "filenameMatch (pre @ ''filename'' @ mid @ ''='' @ (q # name @ q # rest)) =
          Some (filename_value (q # name @ q # rest))"
    using assms(1,2) by (rule filenameMatch_found)
  then have "filenameMatch (pre @ ''filename'' @ mid @ ''='' @ [q] @ name @ [q] @ rest) =
          Some (q # name @ [q])"
    using filename_value_quoted[OF assms(3-5), of rest] by simp
  then show ?thesis using assms(3) by (simp add: filename_of_def)
qed

lemma filename_of_unquoted:
  assumes "\<not> sublist ''filename'' (pre @ ''filenam'')"
    and "list_all (\<lambda>c. c \<noteq> CHR '';'' \<and> c \<noteq> CHR ''='' \<and> c \<noteq> CHR 0x0A) mid"
    and "list_all (\<lambda>c. c \<noteq> CHR '';'' \<and> c \<noteq> CHR 0x0A) name"
    and "name = [] \<or> \<not> is_quote (hd name)"
    and "rest = [] \<or> hd rest = CHR '';'' \<or> hd rest = CHR 0x0A"
  shows "filename_of (Some (pre @ ''filename'' @ mid @ ''='' @ name @ rest)) =
           (if name = [] then ''download'' else filter (\<lambda>c. \<not> is_quote c) name)"
proof -
  have "filenameMatch (pre @ ''filename'' @ mid @ ''='' @ (name @ rest)) =
          Some (filename_value (name @ rest))"
    using assms(1,2) by (rule filenameMatch_found)
  then have m: "filenameMatch (pre @ ''filename'' @ mid @ ''='' @ name @ rest) = Some name"
    using filename_value_unquoted[OF assms(3,4,5)] by simp
  then show ?thesis by (simp add: filename_of_def)
qed

lemma filename_of_default:
  "filename_of None = ''download''" "filename_of (Some []) = ''download''"
  "\<not> sublist ''filename'' cd \<Longrightarrow> filename_of (Some cd) = ''download''"
  by (simp_all add: filename_of_def filenameMatch_None)

text \<open>\<open>parseInt\<close> reads the decimal text of a number back, and gives \<open>NaN\<close> for a
  text that begins with neither white space, a sign nor a digit.\<close>

lemma digit_cases:
  "d < 10 \<Longrightarrow> d = 0 \<or> d = 1 \<or> d = 2 \<or> d = 3 \<or> d = 4 \<or> d = 5 \<or> d = 6 \<or> d = 7 \<or> d = 8 \<or> d = (9::nat)"
  by arith

lemma digit_value_digit_char: "d < 10 \<Longrightarrow> digit_value 10 (digit_char d) = Some d"
  by (drule digit_cases) (elim disjE; simp add: digit_value_def digit_char_def)

lemma digit_char_plain:
  "d < 10 \<Longrightarrow> \<not> is_whitespace (digit_char d) \<and> digit_char d \<noteq> CHR ''-'' \<and>
     digit_char d \<noteq> CHR ''+'' \<and> digit_char d \<noteq> CHR ''x'' \<and> digit_char d \<noteq> CHR ''X''"
  by (drule digit_cases) (elim disjE; simp add: is_whitespace_def digit_char_def)

lemma show_nat_digits: "show_nat k \<noteq> [] \<and> list_all decimal_digit (show_nat k)"
proof (induction k rule: show_nat.induct)
  case (1 n)
  show ?case
  proof (cases "n < 10")
    case True
    then show ?thesis by (auto simp: show_nat.simps[of n] decimal_digit_def)
  next
    case False
    have "n mod 10 < 10" by simp
    then have "decimal_digit (digit_char (n mod 10))" unfolding decimal_digit_def by blast
    with False 1 show ?thesis by (simp add: show_nat.simps[of n])
  qed
qed

lemma digits_value_append:
  "list_all decimal_digit xs \<Longrightarrow>
   digits_value 10 acc (xs @ ys) seen =
     digits_value 10 (foldl (\<lambda>a c. a * 10 + the (digit_value 10 c)) acc xs) ys
       (if xs = [] then seen else Some (foldl (\<lambda>a c. a * 10 + the (digit_value 10 c)) acc xs))"
proof (induction xs arbitrary: acc seen)
  case Nil
  then show ?case by simp
next
  case (Cons x xs)
  then obtain d where d: "d < 10" "x = digit_char d" by (auto simp: decimal_digit_def)
  then have v: "digit_value 10 x = Some d" by (simp add: digit_value_digit_char)
  from Cons.prems have "list_all decimal_digit xs" by simp
  from Cons.IH[OF this, of "acc * 10 + d" "Some (acc * 10 + d)"] v
  show ?case by (cases xs) simp_all
qed

lemma foldl_show_nat:
  "foldl (\<lambda>a c. a * 10 + the (digit_value 10 c)) acc (show_nat k) = acc * 10 ^ length (show_nat k) + k"
proof (induction k arbitrary: acc rule: show_nat.induct)
  case (1 n)
  show ?case
  proof (cases "n < 10")
    case True
    then show ?thesis by (simp add: show_nat.simps[of n] digit_value_digit_char)
  next
    case False
    have m: "n mod 10 < 10" by simp
    have "foldl (\<lambda>a c. a * 10 + the (digit_value 10 c)) acc (show_nat n) =
          (acc * 10 ^ length (show_nat (n div 10)) + n div 10) * 10 + n mod 10"
      using False 1[OF False] by (simp add: show_nat.simps[of n] digit_value_digit_char[OF m])
    also have "\<dots> = acc * 10 ^ length (show_nat n) + n"
      using False by (simp add: show_nat.simps[of n] algebra_simps)
    finally show ?thesis .
  qed
qed

lemma bit_length_bound: "n < 2 ^ k \<Longrightarrow> bit_length n \<le> k"
proof (induction k arbitrary: n)
  case 0
  then show ?case by (simp add: bit_length.simps)
next
  case (Suc k)
  show ?case
  proof (cases "n = 0")
    case True
    then show ?thesis by (simp add: bit_length.simps)
  next
    case False
    from Suc.prems have "n div 2 < 2 ^ k" by simp
    then have "bit_length (n div 2) \<le> k" by (rule Suc.IH)
    with False show ?thesis by (simp add: bit_length.simps[of n])
  qed
qed

text \<open>A double holds every natural number below \<open>2^53\<close>.\<close>

lemma to_double_exact: "n < 2 ^ 53 \<Longrightarrow> to_double n = Some n"
proof -
  assume a: "n < 2 ^ 53"
  then have "bit_length n - 53 = 0" using bit_length_bound[of n 53] by simp
  moreover have "n < 2 ^ 1024"
    using a by (rule less_trans) simp
  ultimately show ?thesis by (simp add: to_double_def)
qed

lemma parseInt_show_nat: "k < 2 ^ 53 \<Longrightarrow> parseInt (show_nat k) = Finite (int k)"
proof -
  assume small: "k < 2 ^ 53"
  obtain c cs where s: "show_nat k = c # cs" using show_nat_digits[of k] by (cases "show_nat k") auto
  have all: "list_all decimal_digit (c # cs)" using show_nat_digits[of k] s by simp
  then obtain d where d: "d < 10" "c = digit_char d" by (auto simp: decimal_digit_def)
  have w: "dropWhile is_whitespace (c # cs) = c # cs" using digit_char_plain[OF d(1)] d(2) by simp
  have sg: "\<not> prefix ''-'' (c # cs)" "\<not> prefix ''+'' (c # cs)"
    using digit_char_plain[OF d(1)] d(2) by auto
  have hx: "\<not> prefix ''0x'' (c # cs)" "\<not> prefix ''0X'' (c # cs)"
  proof -
    have "\<And>e. e \<in> set cs \<Longrightarrow> e \<noteq> CHR ''x'' \<and> e \<noteq> CHR ''X''"
    proof -
      fix e assume "e \<in> set cs"
      with all have "decimal_digit e" by (simp add: list_all_iff)
      then obtain d' where d': "d' < 10" "e = digit_char d'" by (auto simp: decimal_digit_def)
      show "e \<noteq> CHR ''x'' \<and> e \<noteq> CHR ''X''" using digit_char_plain[OF d'(1)] d'(2) by simp
    qed
    then show "\<not> prefix ''0x'' (c # cs)" "\<not> prefix ''0X'' (c # cs)"
      by (cases cs; auto)+
  qed
  have "digits_value 10 0 (show_nat k @ []) None = Some k"
    using digits_value_append[of "show_nat k" 0 "[]" None] show_nat_digits[of k]
    by (simp add: foldl_show_nat)
  then have dv: "digits_value 10 0 (c # cs) None = Some k" using s by simp
  show ?thesis unfolding s parseInt_def Let_def w using sg hx dv to_double_exact[OF small]
    by (simp del: Cons_prefix_Cons digits_value.simps)
qed

text \<open>Above \<open>2^53\<close> the number read is rounded: \<open>2^53 + 1\<close> is a tie, and goes to
  the even neighbour.\<close>

lemma parseInt_rounds: "parseInt ''9007199254740993'' = Finite 9007199254740992"
proof -
  have b: "bit_length 9007199254740993 = 54" by (simp add: bit_length.simps)
  have "to_double 9007199254740993 = Some 9007199254740992"
    by (simp add: to_double_def b)
  then show ?thesis by (simp add: parseInt_def digit_value_def is_whitespace_def)
qed

lemma parseInt_not_a_number:
  assumes "\<not> is_whitespace c" and "c \<noteq> CHR ''-''" and "c \<noteq> CHR ''+''" and "digit_value 10 c = None"
  shows "parseInt (c # cs) = NaN"
proof -
  have z: "c \<noteq> CHR ''0''" using assms(4) by (auto simp: digit_value_def)
  show ?thesis using assms z by (simp add: parseInt_def)
qed

lemma DownloadPage_success:
  assumes "getFileIdFromPath path = Some fid"
    and "net (backend_base @ ''/download/'' @ fid) = Inr r" and "ok r" and "blob r = Inr n"
  shows "DownloadPage net path =
           (\<lparr>fileId = Some fid, downloadStatus = Success, errorMessage = [],
             fileInfo = Some (make_file_info r n)\<rparr>,
            \<lparr>requests = [FetchGet (backend_base @ ''/download/'' @ fid)],
             saved = [filename (make_file_info r n)]\<rparr>)"
proof -
  have "match_download path = Some fid"
    using assms(1) by (simp add: getFileIdFromPath_def split: option.splits)
  then have "dot_plus_to_end fid" by (rule match_download_nonempty)
  then have ne: "fid \<noteq> []" by (simp add: dot_plus_to_end_def)
  show ?thesis using assms ne
    by (simp add: DownloadPage_def download_effect_def download_initial_def downloadFile_def
        Let_def make_file_info_def)
qed

text \<open>
  Claim C6, amended. For every download that succeeds (an identifier in the path, a 2xx
  response, a body that can be read), the page ends in status \<open>success\<close>, has sent one
  request and triggered one save under the derived file name, and its file information
  is as follows.
  The file name is \<open>download\<close> when \<open>Content-Disposition\<close> is absent, empty or
  without the word \<open>filename\<close>. When the first \<open>filename\<close> of the header is
  followed, after characters other than \<open>;\<close>, \<open>=\<close> and LF, by \<open>=\<close> and a value
  between two quotes of the same kind (no such quote and no line terminator inside), the
  file name is that value with every quote character removed. When it is followed by
  a value that does not begin with a quote (no \<open>;\<close> or LF inside; the header ends
  there, or \<open>;\<close> or LF comes next), the file name is that value with every quote
  character removed as well, or \<open>download\<close> when the value is empty.
  The type is \<open>Content-Type\<close>, or \<open>application/octet-stream\<close> when that is absent or
  empty. The size is the length of the body when \<open>Content-Length\<close> is absent or
  empty, and \<open>parseInt\<close> of the header otherwise: the number itself for a header
  that is the decimal text of a number below \<open>2^53\<close>, and \<open>NaN\<close>, not the length of
  the body, for a header that begins with neither white space, a sign nor a digit.
\<close>

theorem download_file_info:
  assumes "getFileIdFromPath path = Some fid"
    and "net (backend_base @ ''/download/'' @ fid) = Inr r" and "ok r" and "blob r = Inr n"
  shows "DownloadPage net path =
           (\<lparr>fileId = Some fid, downloadStatus = Success, errorMessage = [],
             fileInfo = Some (make_file_info r n)\<rparr>,
            \<lparr>requests = [FetchGet (backend_base @ ''/download/'' @ fid)],
             saved = [filename (make_file_info r n)]\<rparr>) \<and>
         (headers r ''content-disposition'' = None \<or> headers r ''content-disposition'' = Some [] \<or>
          (\<exists>cd. headers r ''content-disposition'' = Some cd \<and> \<not> sublist ''filename'' cd)
            \<longrightarrow> filename (make_file_info r n) = ''download'') \<and>
         (headers r ''content-disposition'' = Some (pre @ ''filename'' @ mid @ ''='' @ [q] @ name @ [q] @ rest) \<and>
          \<not> sublist ''filename'' (pre @ ''filenam'') \<and>
          list_all (\<lambda>c. c \<noteq> CHR '';'' \<and> c \<noteq> CHR ''='' \<and> c \<noteq> CHR 0x0A) mid \<and>
          is_quote q \<and> q \<notin> set name \<and> list_all (\<lambda>c. \<not> is_line_terminator c) name
            \<longrightarrow> filename (make_file_info r n) = filter (\<lambda>c. \<not> is_quote c) name) \<and>
         (headers r ''content-disposition'' = Some (pre @ ''filename'' @ mid @ ''='' @ name @ rest) \<and>
          \<not> sublist ''filename'' (pre @ ''filenam'') \<and>
          list_all (\<lambda>c. c \<noteq> CHR '';'' \<and> c \<noteq> CHR ''='' \<and> c \<noteq> CHR 0x0A) mid \<and>
          list_all (\<lambda>c. c \<noteq> CHR '';'' \<and> c \<noteq> CHR 0x0A) name \<and>
          (name = [] \<or> \<not> is_quote (hd name)) \<and>
          (rest = [] \<or> hd rest = CHR '';'' \<or> hd rest = CHR 0x0A)
            \<longrightarrow> filename (make_file_info r n) =
                  (if name = [] then ''download'' else filter (\<lambda>c. \<not> is_quote c) name)) \<and>
         (headers r ''content-type'' = None \<or> headers r ''content-type'' = Some []
            \<longrightarrow> info_type (make_file_info r n) = ''application/octet-stream'') \<and>
         (headers r ''content-type'' = Some ct \<and> ct \<noteq> [] \<longrightarrow> info_type (make_file_info r n) = ct) \<and>
         (headers r ''content-length'' = None \<or> headers r ''content-length'' = Some []
            \<longrightarrow> info_size (make_file_info r n) = Finite (int n)) \<and>
         (headers r ''content-length'' = Some cl \<and> cl \<noteq> [] \<longrightarrow> info_size (make_file_info r n) = parseInt cl) \<and>
         (headers r ''content-length'' = Some (show_nat k) \<and> k < 2 ^ 53 \<longrightarrow>
            info_size (make_file_info r n) = Finite (int k)) \<and>
         (headers r ''content-length'' = Some (c # cs) \<and> \<not> is_whitespace c \<and> c \<noteq> CHR ''-'' \<and>
          c \<noteq> CHR ''+'' \<and> digit_value 10 c = None
            \<longrightarrow> info_size (make_file_info r n) = NaN)"
proof (intro conjI impI)
  show "DownloadPage net path =
           (\<lparr>fileId = Some fid, downloadStatus = Success, errorMessage = [],
             fileInfo = Some (make_file_info r n)\<rparr>,
            \<lparr>requests = [FetchGet (backend_base @ ''/download/'' @ fid)],
             saved = [filename (make_file_info r n)]\<rparr>)"
    using assms by (rule DownloadPage_success)
next
  assume "headers r ''content-length'' = Some (show_nat k) \<and> k < 2 ^ 53"
  moreover have "show_nat k \<noteq> []" using show_nat_digits by blast
  ultimately show "info_size (make_file_info r n) = Finite (int k)"
    by (simp add: make_file_info_def parseInt_show_nat)
next
  assume "headers r ''content-length'' = Some (c # cs) \<and> \<not> is_whitespace c \<and> c \<noteq> CHR ''-'' \<and>
          c \<noteq> CHR ''+'' \<and> digit_value 10 c = None"
  then show "info_size (make_file_info r n) = NaN"
    by (simp add: make_file_info_def parseInt_not_a_number)
next
  assume "headers r ''content-disposition'' = None \<or> headers r ''content-disposition'' = Some [] \<or>
          (\<exists>cd. headers r ''content-disposition'' = Some cd \<and> \<not> sublist ''filename'' cd)"
  then show "filename (make_file_info r n) = ''download''"
    by (auto simp: make_file_info_def filename_of_default)
next
  assume "headers r ''content-disposition'' = Some (pre @ ''filename'' @ mid @ ''='' @ [q] @ name @ [q] @ rest) \<and>
          \<not> sublist ''filename'' (pre @ ''filenam'') \<and>
          list_all (\<lambda>c. c \<noteq> CHR '';'' \<and> c \<noteq> CHR ''='' \<and> c \<noteq> CHR 0x0A) mid \<and>
          is_quote q \<and> q \<notin> set name \<and> list_all (\<lambda>c. \<not> is_line_terminator c) name"
  then show "filename (make_file_info r n) = filter (\<lambda>c. \<not> is_quote c) name"
    using filename_of_quoted[of pre mid q name rest] by (simp add: make_file_info_def)
next
  assume "headers r ''content-disposition'' = Some (pre @ ''filename'' @ mid @ ''='' @ name @ rest) \<and>
          \<not> sublist ''filename'' (pre @ ''filenam'') \<and>
          list_all (\<lambda>c. c \<noteq> CHR '';'' \<and> c \<noteq> CHR ''='' \<and> c \<noteq> CHR 0x0A) mid \<and>
          list_all (\<lambda>c. c \<noteq> CHR '';'' \<and> c \<noteq> CHR 0x0A) name \<and>
          (name = [] \<or> \<not> is_quote (hd name)) \<and>
          (rest = [] \<or> hd rest = CHR '';'' \<or> hd rest = CHR 0x0A)"
  then show "filename (make_file_info r n) =
                  (if name = [] then ''download'' else filter (\<lambda>c. \<not> is_quote c) name)"
    using filename_of_unquoted[of pre mid name rest] by (simp add: make_file_info_def)
next
  assume "headers r ''content-type'' = None \<or> headers r ''content-type'' = Some []"
  then show "info_type (make_file_info r n) = ''application/octet-stream''"
    by (auto simp: make_file_info_def)
next
  assume "headers r ''content-type'' = Some ct \<and> ct \<noteq> []"
  then show "info_type (make_file_info r n) = ct" by (simp add: make_file_info_def)
next
  assume "headers r ''content-length'' = None \<or> headers r ''content-length'' = Some []"
  then show "info_size (make_file_info r n) = Finite (int n)" by (auto simp: make_file_info_def)
next
  assume "headers r ''content-length'' = Some cl \<and> cl \<noteq> []"
  then show "info_size (make_file_info r n) = parseInt cl" by (simp add: make_file_info_def)
qed

theorem download_file_info_witness:
  "fileInfo (fst (DownloadPage (\<lambda>url. Inr report_response) ''/download/abc123'')) =
     Some (make_file_info report_response 2048) \<and>
   saved (snd (DownloadPage (\<lambda>url. Inr report_response) ''/download/abc123'')) = [''report.pdf''] \<and>
   filename (make_file_info report_response 2048) = ''report.pdf'' \<and>
   info_size (make_file_info report_response 2048) = Finite 2048 \<and>
   info_type (make_file_info report_response 2048) = ''application/octet-stream'' \<and>
   filename (make_file_info plain_response 7) = ''notes.txt'' \<and>
   info_size (make_file_info plain_response 7) = Finite 7 \<and>
   info_type (make_file_info plain_response 7) = ''text/plain'' \<and>
   filename (make_file_info star_response 3) = ''UTF-8na%20me.txt'' \<and>
   filename (make_file_info bad_length_response 5) = ''download'' \<and>
   info_size (make_file_info bad_length_response 5) = NaN"
proof -
  have 1: "getFileIdFromPath ''/download/abc123'' = Some ''abc123''"
    by (simp add: getFileIdFromPath_def dot_plus_to_end_def is_line_terminator_def)
  have pre: "\<not> sublist ''filename'' (''attachment; '' @ ''filenam'')"
    by (simp add: sublist_Cons_right)
  have mid: "list_all (\<lambda>c. c \<noteq> CHR '';'' \<and> c \<noteq> CHR ''='' \<and> c \<noteq> CHR 0x0A) []" by simp
  (* The response of the success scenario: a quoted file name and a length. *)
  have r2: "(\<lambda>url. Inr report_response) (backend_base @ ''/download/'' @ ''abc123'') = Inr report_response"
    by simp
  have r3: "ok report_response" by (simp add: ok_def report_response_def)
  have r4: "blob report_response = Inr 2048" by (simp add: report_response_def)
  have cd: "headers report_response ''content-disposition'' =
      Some (''attachment; '' @ ''filename'' @ [] @ ''='' @ [CHR 0x22] @ ''report.pdf'' @ [CHR 0x22] @ [])"
    by (simp add: report_response_def)
  have q: "is_quote (CHR 0x22)" "CHR 0x22 \<notin> set ''report.pdf''"
    "list_all (\<lambda>c. \<not> is_line_terminator c) ''report.pdf''"
    by (simp_all add: is_quote_def is_line_terminator_def)
  have f: "filter (\<lambda>c. \<not> is_quote c) ''report.pdf'' = ''report.pdf''" by (simp add: is_quote_def)
  have ct: "headers report_response ''content-type'' = None" by (simp add: report_response_def)
  have n2048: "show_nat 2048 = ''2048''" by (simp add: show_nat.simps digit_char_def)
  have cl: "headers report_response ''content-length'' = Some (show_nat 2048) \<and> (2048::nat) < 2 ^ 53"
    by (simp add: report_response_def n2048)
  note t = download_file_info[OF 1 r2 r3 r4, where pre = "''attachment; ''" and mid = "[]"
      and q = "CHR 0x22" and name = "''report.pdf''" and rest = "[]" and ct = "[]" and cl = "[]"
      and k = 2048 and c = "CHR ''a''" and cs = "[]"]
  from t cd pre mid q have a: "filename (make_file_info report_response 2048) = ''report.pdf''"
    unfolding f by blast
  from t ct have b: "info_type (make_file_info report_response 2048) = ''application/octet-stream''"
    by blast
  from t cl have c: "info_size (make_file_info report_response 2048) = Finite 2048"
    by simp
  from t have d: "DownloadPage (\<lambda>url. Inr report_response) ''/download/abc123'' =
           (\<lparr>fileId = Some ''abc123'', downloadStatus = Success, errorMessage = [],
             fileInfo = Some (make_file_info report_response 2048)\<rparr>,
            \<lparr>requests = [FetchGet (backend_base @ ''/download/'' @ ''abc123'')],
             saved = [filename (make_file_info report_response 2048)]\<rparr>)"
    by blast
  (* An unquoted file name, a type, no length. *)
  have p2: "(\<lambda>url. Inr plain_response) (backend_base @ ''/download/'' @ ''abc123'') = Inr plain_response"
    by simp
  have p3: "ok plain_response" by (simp add: ok_def plain_response_def)
  have p4: "blob plain_response = Inr 7" by (simp add: plain_response_def)
  have pcd: "headers plain_response ''content-disposition'' =
      Some (''attachment; '' @ ''filename'' @ [] @ ''='' @ ''notes.txt'' @ [])"
    by (simp add: plain_response_def)
  have pn: "list_all (\<lambda>c. c \<noteq> CHR '';'' \<and> c \<noteq> CHR 0x0A) ''notes.txt''"
    "''notes.txt'' = [] \<or> \<not> is_quote (hd ''notes.txt'')"
    "filter (\<lambda>c. \<not> is_quote c) ''notes.txt'' = ''notes.txt''"
    by (simp_all add: is_quote_def)
  have pct: "headers plain_response ''content-type'' = Some ''text/plain'' \<and> ''text/plain'' \<noteq> []"
    by (simp add: plain_response_def)
  have pcl: "headers plain_response ''content-length'' = None" by (simp add: plain_response_def)
  note u = download_file_info[OF 1 p2 p3 p4, where pre = "''attachment; ''" and mid = "[]"
      and q = "CHR 0x22" and name = "''notes.txt''" and rest = "[]" and ct = "''text/plain''"
      and cl = "[]" and k = 0 and c = "CHR ''a''" and cs = "[]"]
  from u pcd pre mid pn have e: "filename (make_file_info plain_response 7) = ''notes.txt''"
    by simp
  from u pct have g: "info_type (make_file_info plain_response 7) = ''text/plain''" by blast
  from u pcl have h: "info_size (make_file_info plain_response 7) = Finite 7" by simp
  (* An extended parameter: the value keeps its prefix and loses its quotes. *)
  have s2: "(\<lambda>url. Inr star_response) (backend_base @ ''/download/'' @ ''abc123'') = Inr star_response"
    by simp
  have s3: "ok star_response" by (simp add: ok_def star_response_def)
  have s4: "blob star_response = Inr 3" by (simp add: star_response_def)
  have scd: "headers star_response ''content-disposition'' =
      Some (''attachment; '' @ ''filename'' @ ''*'' @ ''='' @
            (''UTF-8'' @ [CHR 0x27, CHR 0x27] @ ''na%20me.txt'') @ [])"
    by (simp add: star_response_def)
  have sm: "list_all (\<lambda>c. c \<noteq> CHR '';'' \<and> c \<noteq> CHR ''='' \<and> c \<noteq> CHR 0x0A) ''*''" by simp
  have sn: "list_all (\<lambda>c. c \<noteq> CHR '';'' \<and> c \<noteq> CHR 0x0A) (''UTF-8'' @ [CHR 0x27, CHR 0x27] @ ''na%20me.txt'')"
    "(''UTF-8'' @ [CHR 0x27, CHR 0x27] @ ''na%20me.txt'') = [] \<or>
       \<not> is_quote (hd (''UTF-8'' @ [CHR 0x27, CHR 0x27] @ ''na%20me.txt''))"
    "filter (\<lambda>c. \<not> is_quote c) (''UTF-8'' @ [CHR 0x27, CHR 0x27] @ ''na%20me.txt'') = ''UTF-8na%20me.txt''"
    by (simp_all add: is_quote_def)
  note w = download_file_info[OF 1 s2 s3 s4, where pre = "''attachment; ''" and mid = "''*''"
      and q = "CHR 0x22" and name = "''UTF-8'' @ [CHR 0x27, CHR 0x27] @ ''na%20me.txt''"
      and rest = "[]" and ct = "[]" and cl = "[]" and k = 0 and c = "CHR ''a''" and cs = "[]"]
  from w scd pre sm sn have x: "filename (make_file_info star_response 3) = ''UTF-8na%20me.txt''"
    by simp
  (* No file name, and a length that is not a number. *)
  have b2: "(\<lambda>url. Inr bad_length_response) (backend_base @ ''/download/'' @ ''abc123'') =
      Inr bad_length_response"
    by simp
  have b3: "ok bad_length_response" by (simp add: ok_def bad_length_response_def)
  have b4: "blob bad_length_response = Inr 5" by (simp add: bad_length_response_def)
  have bcd: "headers bad_length_response ''content-disposition'' = None"
    by (simp add: bad_length_response_def)
  have bcl: "headers bad_length_response ''content-length'' = Some (CHR ''a'' # ''bc'') \<and>
      \<not> is_whitespace (CHR ''a'') \<and> CHR ''a'' \<noteq> CHR ''-'' \<and> CHR ''a'' \<noteq> CHR ''+'' \<and>
      digit_value 10 (CHR ''a'') = None"
    by (simp add: bad_length_response_def is_whitespace_def digit_value_def)
  note v = download_file_info[OF 1 b2 b3 b4, where pre = "[]" and mid = "[]"
      and q = "CHR 0x22" and name = "[]" and rest = "[]" and ct = "[]"
      and cl = "[]" and k = 0 and c = "CHR ''a''" and cs = "''bc''"]
  from v bcd have i: "filename (make_file_info bad_length_response 5) = ''download''" by blast
  from v bcl have j: "info_size (make_file_info bad_length_response 5) = NaN" by blast
  show ?thesis unfolding d using a b c e g h x i j by simp
qed

text \<open>The claim as stated fails for a \<open>Content-Length\<close> that is present and cannot be
  parsed: the download succeeds, the body has 5 bytes, and the size is \<open>NaN\<close>.\<close>

theorem content_length_not_a_number_counterexample:
  "headers bad_length_response ''content-length'' = Some ''abc'' \<and>
   blob bad_length_response = Inr 5 \<and>
   downloadStatus (fst (DownloadPage (\<lambda>url. Inr bad_length_response) ''/download/abc123'')) = Success \<and>
   map_option info_size (fileInfo (fst (DownloadPage (\<lambda>url. Inr bad_length_response) ''/download/abc123'')))
     = Some NaN"
  by (simp add: bad_length_response_def DownloadPage_def download_effect_def download_initial_def
      downloadFile_def getFileIdFromPath_def dot_plus_to_end_def is_line_terminator_def ok_def
      make_file_info_def parseInt_def digit_value_def is_whitespace_def Let_def)

end
